theory Spec2Isabelle
  imports Main "HOL-Library.AList"
begin

section \<open>Data model\<close>

text \<open>
  The event router (\<^verbatim>\<open>ipc-handlers.ts\<close>), the runtime session table
  (\<^verbatim>\<open>runtime-state.ts\<close>) and the message renderer (\<^verbatim>\<open>MessageCard\<close>) of the desktop
  client. The module-level maps \<^verbatim>\<open>sessions\<close> and \<^verbatim>\<open>runnerHandles\<close> become fields of
  an explicit state; every effect on the outside world (a broadcast to the windows, a call
  of \<^verbatim>\<open>abort()\<close>, a call of a permission callback, a line on the console) is appended to
  a log kept in the same state.
\<close>

datatype SessionStatus = Idle | Running | Completed | Error

text \<open>
  A value a rejected promise can carry, and \<^verbatim>\<open>String(error)\<close> on it: an \<^verbatim>\<open>Error\<close>
  object prints as \<^verbatim>\<open>name: message\<close> (the name alone when the message is empty, the
  message alone when the name is empty), a thrown string prints as itself.
\<close>

datatype thrown = ThrownError string string | ThrownString string

fun String_js :: "thrown \<Rightarrow> string" where
  "String_js (ThrownString s) = s"
| "String_js (ThrownError name msg) =
     (if name = [] then msg else if msg = [] then name else name @ '': '' @ msg)"

datatype 'a outcome = Returns 'a | Throws thrown

datatype promise = Pending | Fulfilled | Rejected thrown

text \<open>
  \<^verbatim>\<open>CanUseToolResponse\<close> belongs to the SDK; the router only passes it on to the
  callback.
\<close>

datatype CanUseToolResponse = Allow string | Deny string

text \<open>
  The stream messages the renderer distinguishes by their \<^verbatim>\<open>type\<close> tag, each with
  the fields the renderer reads. \<^verbatim>\<open>SDKOther\<close> is a message with any other tag.
\<close>

datatype StreamMessage =
    UserPromptMessage string
  | SDKInit "string option" "string option"
  | SDKAssistant string
  | SDKReasoning string
  | SDKToolCall "string option" string string
  | SDKToolResult "string option" string bool
  | SDKResult bool "string option"
  | SDKOther string

record SessionInfo =
  si_id :: string
  si_title :: string
  si_status :: SessionStatus
  si_lettaConversationId :: "string option"
  si_cwd :: "string option"
  si_createdAt :: nat
  si_updatedAt :: nat

text \<open>Server to client events, one constructor per \<^verbatim>\<open>type\<close> tag, payload fields in order.\<close>

datatype ServerEvent =
    S_stream_message string StreamMessage
  | S_stream_user_prompt string string
  | S_session_status string SessionStatus "string option" "string option" "string option"
  | S_session_list "SessionInfo list"
  | S_session_history string SessionStatus "StreamMessage list"
  | S_session_deleted string
  | S_permission_request string string string string
  | S_runner_error "string option" string

text \<open>
  Client to server events. \<^verbatim>\<open>session.continue\<close> carries the \<^verbatim>\<open>cwd\<close> the handler reads
  from its payload (absent when the client did not send one).
\<close>

datatype ClientEvent =
    C_session_start string string "string option" "string option"
  | C_session_continue string string "string option"
  | C_session_stop string
  | C_session_delete string
  | C_session_list
  | C_session_history string
  | C_permission_response string string CanUseToolResponse

text \<open>
  A pending permission. Its \<^verbatim>\<open>resolve\<close> field is a closure made by the runner; the
  model keeps the identity of the closure, and what calling it does is a parameter of the
  router (see \<open>callbacks\<close> below).
\<close>

record PendingPermission =
  toolUseId :: string
  toolName :: string
  input :: string
  resolve :: nat

type_synonym pmap = "string \<rightharpoonup> PendingPermission"

text \<open>
  A runtime session. \<^verbatim>\<open>pendingPermissions\<close> is a \<^verbatim>\<open>Map\<close> object shared by reference
  with the runner, so the session holds its address in the store \<open>pendingMaps\<close>.
\<close>

record RuntimeSession =
  conversationId :: string
  agentId :: "string option"
  status :: SessionStatus
  pendingPermissions :: nat
  abortController :: "nat option"

text \<open>\<^verbatim>\<open>Partial<RuntimeSession>\<close>: every field optional.\<close>

record RuntimeSession_partial =
  p_conversationId :: "string option"
  p_agentId :: "string option"
  p_status :: "SessionStatus option"
  p_pendingPermissions :: "nat option"
  p_abortController :: "nat option"

definition status_only :: "SessionStatus \<Rightarrow> RuntimeSession_partial" where
  "status_only st = \<lparr>p_conversationId = None, p_agentId = None, p_status = Some st,
     p_pendingPermissions = None, p_abortController = None\<rparr>"

text \<open>\<^verbatim>\<open>Object.assign(session, updates)\<close>: every field present in the updates is copied.\<close>

definition assign :: "RuntimeSession \<Rightarrow> RuntimeSession_partial \<Rightarrow> RuntimeSession" where
  "assign session updates =
     \<lparr>conversationId = (case p_conversationId updates of Some v \<Rightarrow> v | None \<Rightarrow> conversationId session),
      agentId = (case p_agentId updates of Some v \<Rightarrow> Some v | None \<Rightarrow> agentId session),
      status = (case p_status updates of Some v \<Rightarrow> v | None \<Rightarrow> status session),
      pendingPermissions =
        (case p_pendingPermissions updates of Some v \<Rightarrow> v | None \<Rightarrow> pendingPermissions session),
      abortController =
        (case p_abortController updates of Some v \<Rightarrow> Some v | None \<Rightarrow> abortController session)\<rparr>"

text \<open>The \<^verbatim>\<open>session\<close> object and the options handed to \<^verbatim>\<open>runLetta\<close>.\<close>

record RunnerSession =
  rs_id :: string
  rs_title :: string
  rs_status :: SessionStatus
  rs_cwd :: "string option"
  rs_pendingPermissions :: nat

record RunnerOptions =
  ro_prompt :: string
  ro_session :: RunnerSession
  ro_resumeConversationId :: "string option"

text \<open>
  One call of \<^verbatim>\<open>runLetta\<close> and the closures \<^verbatim>\<open>onEvent\<close> and \<^verbatim>\<open>onSessionUpdate\<close> that
  the handler gave it: which branch made them, the captured \<^verbatim>\<open>event.payload.prompt\<close> and
  \<^verbatim>\<open>event.payload.cwd\<close>, the variables \<^verbatim>\<open>conversationId\<close> and \<^verbatim>\<open>handle\<close> of the
  \<^verbatim>\<open>session.start\<close> branch (both \<^verbatim>\<open>null\<close> at first), and the state of the promise that
  \<^verbatim>\<open>handleClientEvent\<close> returned to its caller. In the \<^verbatim>\<open>session.continue\<close> branch
  \<^verbatim>\<open>conversationId\<close> is the constant \<^verbatim>\<open>event.payload.sessionId\<close>, kept with the origin.
\<close>

datatype origin = OfStart | OfContinue string

record run =
  r_origin :: origin
  r_options :: RunnerOptions
  r_prompt :: string
  r_cwd :: "string option"
  r_conversationId :: "string option"
  r_handle :: "nat option"
  r_promise :: promise

text \<open>
  The state. \<open>runnerHandles\<close> is a \<^verbatim>\<open>Map\<close> that \<^verbatim>\<open>cleanupAllSessions\<close> iterates, so
  it is an association list in insertion order; \<open>sessions\<close> and the pending-permission
  maps are only looked up by key. \<open>pendingMaps\<close> is the store of the \<^verbatim>\<open>Map\<close> objects made
  by \<^verbatim>\<open>new Map()\<close>, and \<open>nextMap\<close> the next free address. \<open>sent\<close> lists the events
  passed to \<^verbatim>\<open>broadcast\<close> (each goes to every open window), \<open>aborted\<close> the handles whose
  \<^verbatim>\<open>abort()\<close> was called, \<open>resolved\<close> the calls of permission callbacks, \<open>console\<close> the
  values given to \<^verbatim>\<open>console.error\<close>.
\<close>

record state =
  sessions :: "string \<rightharpoonup> RuntimeSession"
  runnerHandles :: "(string \<times> nat) list"
  pendingMaps :: "nat \<Rightarrow> pmap"
  nextMap :: nat
  runs :: "run list"
  sent :: "ServerEvent list"
  aborted :: "nat list"
  resolved :: "(nat \<times> CanUseToolResponse) list"
  console :: "thrown list"

definition init :: state where
  "init = \<lparr>sessions = Map.empty, runnerHandles = [], pendingMaps = (\<lambda>_. Map.empty), nextMap = 0,
     runs = [], sent = [], aborted = [], resolved = [], console = []\<rparr>"

text \<open>
  What calling the permission callback with a given identity and result does to the
  pending-permission maps, the only state of this program such a closure holds.
\<close>

type_synonym callbacks = "nat \<Rightarrow> CanUseToolResponse \<Rightarrow> (nat \<Rightarrow> pmap) \<Rightarrow> (nat \<Rightarrow> pmap)"

section \<open>Runtime session table\<close>

definition new_Map :: "state \<Rightarrow> nat \<times> state" where
  "new_Map s = (nextMap s,
     s\<lparr>pendingMaps := (pendingMaps s)(nextMap s := Map.empty), nextMap := Suc (nextMap s)\<rparr>)"

definition createRuntimeSession :: "string \<Rightarrow> state \<Rightarrow> RuntimeSession \<times> state" where
  "createRuntimeSession cid s =
     (let (m, s1) = new_Map s;
          session = \<lparr>conversationId = cid, agentId = None, status = Idle,
                     pendingPermissions = m, abortController = None\<rparr>
      in (session, s1\<lparr>sessions := (sessions s1)(cid \<mapsto> session)\<rparr>))"

definition getSession :: "string \<Rightarrow> state \<Rightarrow> RuntimeSession option" where
  "getSession cid s = sessions s cid"

definition updateSession ::
  "string \<Rightarrow> RuntimeSession_partial \<Rightarrow> state \<Rightarrow> RuntimeSession option \<times> state" where
  "updateSession cid updates s =
     (case sessions s cid of
        None \<Rightarrow> (None, s)
      | Some session \<Rightarrow>
          (Some (assign session updates),
           s\<lparr>sessions := (sessions s)(cid \<mapsto> assign session updates)\<rparr>))"

definition deleteSession :: "string \<Rightarrow> state \<Rightarrow> bool \<times> state" where
  "deleteSession cid s =
     (sessions s cid \<noteq> None, s\<lparr>sessions := (sessions s)(cid := None)\<rparr>)"

section \<open>Event router\<close>

definition broadcast :: "ServerEvent \<Rightarrow> state \<Rightarrow> state" where
  "broadcast event s = s\<lparr>sent := sent s @ [event]\<rparr>"

definition emit :: "ServerEvent \<Rightarrow> state \<Rightarrow> state" where
  "emit event s =
     broadcast event
       (case event of
          S_session_status sid st _ _ _ \<Rightarrow> snd (updateSession sid (status_only st) s)
        | _ \<Rightarrow> s)"

text \<open>\<^verbatim>\<open>"sessionId" in e.payload\<close>, and the assignment \<^verbatim>\<open>payload.sessionId = conversationId\<close>.\<close>

fun has_sessionId :: "ServerEvent \<Rightarrow> bool" where
  "has_sessionId (S_session_list _) = False"
| "has_sessionId (S_runner_error sid _) = (sid \<noteq> None)"
| "has_sessionId _ = True"

fun set_sessionId :: "string \<Rightarrow> ServerEvent \<Rightarrow> ServerEvent" where
  "set_sessionId c (S_stream_message _ m) = S_stream_message c m"
| "set_sessionId c (S_stream_user_prompt _ p) = S_stream_user_prompt c p"
| "set_sessionId c (S_session_status _ st t w e) = S_session_status c st t w e"
| "set_sessionId c (S_session_list l) = S_session_list l"
| "set_sessionId c (S_session_history _ st ms) = S_session_history c st ms"
| "set_sessionId c (S_session_deleted _) = S_session_deleted c"
| "set_sessionId c (S_permission_request _ u n i) = S_permission_request c u n i"
| "set_sessionId c (S_runner_error _ m) = S_runner_error (Some c) m"

text \<open>Truthiness of a \<^verbatim>\<open>string | null | undefined\<close>: the empty string is falsy.\<close>

fun truthy :: "string option \<Rightarrow> bool" where
  "truthy None = False"
| "truthy (Some v) = (v \<noteq> [])"

definition set_run :: "nat \<Rightarrow> run \<Rightarrow> state \<Rightarrow> state" where
  "set_run k r s = s\<lparr>runs := (runs s)[k := r]\<rparr>"

text \<open>
  \<^verbatim>\<open>runLetta(options)\<close> is called: the call and its closures are recorded; the promise of
  the handler is pending until the runner's promise settles.
\<close>

definition call_runLetta ::
  "origin \<Rightarrow> RunnerOptions \<Rightarrow> string \<Rightarrow> string option \<Rightarrow> state \<Rightarrow> state" where
  "call_runLetta orig opts prompt cwd s =
     s\<lparr>runs := runs s @ [\<lparr>r_origin = orig, r_options = opts, r_prompt = prompt, r_cwd = cwd,
                           r_conversationId = None, r_handle = None, r_promise = Pending\<rparr>]\<rparr>"

text \<open>\<^verbatim>\<open>handle.abort(); runnerHandles.delete(conversationId)\<close> when a handle is stored.\<close>

definition abort_handle :: "string \<Rightarrow> state \<Rightarrow> state" where
  "abort_handle cid s =
     (case map_of (runnerHandles s) cid of
        Some handle \<Rightarrow>
          s\<lparr>aborted := aborted s @ [handle], runnerHandles := AList.delete cid (runnerHandles s)\<rparr>
      | None \<Rightarrow> s)"

text \<open>
  \<^verbatim>\<open>handleClientEvent\<close> up to its first suspension: the whole body for the five
  synchronous requests, and the part before \<^verbatim>\<open>await runLetta(...)\<close> for
  \<^verbatim>\<open>session.start\<close> and \<^verbatim>\<open>session.continue\<close>. The result is the state of the promise
  returned to the caller.
\<close>

fun request :: "callbacks \<Rightarrow> ClientEvent \<Rightarrow> state \<Rightarrow> promise \<times> state" where
  "request cb C_session_list s = (Fulfilled, emit (S_session_list []) s)"
| "request cb (C_session_history sid) s =
     (let st = (case getSession sid s of Some session \<Rightarrow> status session | None \<Rightarrow> Idle)
      in (Fulfilled, emit (S_session_history sid st []) s))"
| "request cb (C_session_start title prompt cwd allowedTools) s =
     (let (pp, s1) = new_Map s;
          opts = \<lparr>ro_prompt = prompt,
                  ro_session = \<lparr>rs_id = ''pending'', rs_title = title, rs_status = Running,
                                rs_cwd = cwd, rs_pendingPermissions = pp\<rparr>,
                  ro_resumeConversationId = None\<rparr>
      in (Pending, call_runLetta OfStart opts prompt cwd s1))"
| "request cb (C_session_continue sid prompt cwd) s =
     (let (runtimeSession, s1) =
            (case getSession sid s of
               Some session \<Rightarrow> (session, s)
             | None \<Rightarrow> createRuntimeSession sid s);
          s2 = snd (updateSession sid (status_only Running) s1);
          s3 = emit (S_session_status sid Running None None None) s2;
          s4 = emit (S_stream_user_prompt sid prompt) s3;
          opts = \<lparr>ro_prompt = prompt,
                  ro_session = \<lparr>rs_id = sid, rs_title = sid, rs_status = Running, rs_cwd = cwd,
                                rs_pendingPermissions = pendingPermissions runtimeSession\<rparr>,
                  ro_resumeConversationId = Some sid\<rparr>
      in (Pending, call_runLetta (OfContinue sid) opts prompt cwd s4))"
| "request cb (C_session_stop sid) s =
     (let s1 = abort_handle sid s;
          s2 = snd (updateSession sid (status_only Idle) s1)
      in (Fulfilled, emit (S_session_status sid Idle None None None) s2))"
| "request cb (C_session_delete sid) s =
     (let s1 = abort_handle sid s;
          s2 = snd (deleteSession sid s1)
      in (Fulfilled, emit (S_session_deleted sid) s2))"
| "request cb (C_permission_response sid tid result) s =
     (case getSession sid s of
        None \<Rightarrow> (Fulfilled, s)
      | Some session \<Rightarrow>
          (case pendingMaps s (pendingPermissions session) tid of
             None \<Rightarrow> (Fulfilled, s)
           | Some pending \<Rightarrow>
               (Fulfilled,
                s\<lparr>pendingMaps := cb (resolve pending) result (pendingMaps s),
                  resolved := resolved s @ [(resolve pending, result)]\<rparr>)))"

text \<open>
  The two closures of the \<^verbatim>\<open>session.start\<close> branch, for the run numbered \<open>k\<close>. They are
  called through \<open>callback\<close> below, for a run that exists; \<open>the\<close> reads a string only
  where the truthiness test beside it has found one.
\<close>

definition start_onEvent :: "nat \<Rightarrow> ServerEvent \<Rightarrow> state \<Rightarrow> state" where
  "start_onEvent k e s =
     (let r = runs s ! k
      in if truthy (r_conversationId r) \<and> has_sessionId e
         then emit (set_sessionId (the (r_conversationId r)) e) s
         else emit e s)"

definition start_onSessionUpdate :: "nat \<Rightarrow> string option \<Rightarrow> state \<Rightarrow> state" where
  "start_onSessionUpdate k lettaConversationId s =
     (let r = runs s ! k
      in if truthy lettaConversationId \<and> \<not> truthy (r_conversationId r)
         then
           (let cid = the lettaConversationId;
                s1 = set_run k (r\<lparr>r_conversationId := Some cid\<rparr>) s;
                s2 = snd (createRuntimeSession cid s1);
                s3 = snd (updateSession cid (status_only Running) s2);
                s4 = (case r_handle r of
                        Some handle \<Rightarrow>
                          s3\<lparr>runnerHandles := AList.update cid handle (runnerHandles s3)\<rparr>
                      | None \<Rightarrow> s3);
                s5 = emit (S_session_status cid Running (Some cid) (r_cwd r) None) s4
            in emit (S_stream_user_prompt cid (r_prompt r)) s5)
         else s)"

text \<open>
  A callback made by the runner of run \<open>k\<close>: \<^verbatim>\<open>onEvent(e)\<close>, or \<^verbatim>\<open>onSessionUpdate(updates)\<close>
  of which the handler reads \<^verbatim>\<open>updates.lettaConversationId\<close> alone. The
  \<^verbatim>\<open>session.continue\<close> branch passes \<^verbatim>\<open>emit\<close> and \<^verbatim>\<open>() => {}\<close>. There is no closure to call
  for a run that was never started.
\<close>

datatype RunnerCallback = OnEvent ServerEvent | OnSessionUpdate "string option"

definition callback :: "nat \<Rightarrow> RunnerCallback \<Rightarrow> state \<Rightarrow> state" where
  "callback k c s =
     (if k < length (runs s) then
        (case (r_origin (runs s ! k), c) of
           (OfStart, OnEvent e) \<Rightarrow> start_onEvent k e s
         | (OfStart, OnSessionUpdate u) \<Rightarrow> start_onSessionUpdate k u s
         | (OfContinue cid, OnEvent e) \<Rightarrow> emit e s
         | (OfContinue cid, OnSessionUpdate u) \<Rightarrow> s)
      else s)"

text \<open>
  The promise of \<^verbatim>\<open>runLetta\<close> for run \<open>k\<close> settles and the handler resumes after its
  \<^verbatim>\<open>await\<close>: the assignment to \<^verbatim>\<open>handle\<close> or \<^verbatim>\<open>runnerHandles.set\<close> when it resolved,
  the \<^verbatim>\<open>catch\<close> block when it rejected. A promise settles once.
\<close>

definition settle :: "nat \<Rightarrow> nat outcome \<Rightarrow> state \<Rightarrow> state" where
  "settle k res s =
     (if k < length (runs s) \<and> r_promise (runs s ! k) = Pending then
        (let r = runs s ! k
         in case (r_origin r, res) of
              (OfStart, Returns handle) \<Rightarrow>
                set_run k (r\<lparr>r_handle := Some handle, r_promise := Fulfilled\<rparr>) s
            | (OfStart, Throws err) \<Rightarrow>
                (let s1 = s\<lparr>console := console s @ [err]\<rparr>;
                     s2 = emit (S_runner_error None (String_js err)) s1
                 in set_run k (r\<lparr>r_promise := Fulfilled\<rparr>) s2)
            | (OfContinue cid, Returns handle) \<Rightarrow>
                (let s1 = s\<lparr>runnerHandles := AList.update cid handle (runnerHandles s)\<rparr>
                 in set_run k (r\<lparr>r_promise := Fulfilled\<rparr>) s1)
            | (OfContinue cid, Throws err) \<Rightarrow>
                (let s1 = snd (updateSession cid (status_only Error) s);
                     s2 = emit (S_session_status cid Error None None (Some (String_js err))) s1
                 in set_run k (r\<lparr>r_promise := Fulfilled\<rparr>) s2))
      else s)"

text \<open>
  One uninterrupted call of \<^verbatim>\<open>handleClientEvent\<close>: the request, then for
  \<^verbatim>\<open>session.start\<close> and \<^verbatim>\<open>session.continue\<close> the callbacks the runner makes before its
  promise settles, and the settlement. The runner is the pair of those callbacks and of
  how its promise settles.
\<close>

definition handleClientEvent ::
  "callbacks \<Rightarrow> ClientEvent \<Rightarrow> RunnerCallback list \<times> nat outcome \<Rightarrow> state \<Rightarrow> promise \<times> state" where
  "handleClientEvent cb event runner s =
     (case request cb event s of
        (Pending, s1) \<Rightarrow>
          (let k = length (runs s);
               s2 = foldl (\<lambda>t c. callback k c t) s1 (fst runner);
               s3 = settle k (snd runner) s2
           in (r_promise (runs s3 ! k), s3))
      | (p, s1) \<Rightarrow> (p, s1))"

definition cleanupAllSessions :: "state \<Rightarrow> state" where
  "cleanupAllSessions s =
     s\<lparr>aborted := aborted s @ map snd (runnerHandles s), runnerHandles := []\<rparr>"

text \<open>
  The router over time: requests, later callbacks of the runners and settlements of their
  promises arrive in any order, each handled to completion before the next.
\<close>

datatype action =
    Request ClientEvent
  | Callback nat RunnerCallback
  | Settle nat "nat outcome"
  | Cleanup

fun step :: "callbacks \<Rightarrow> action \<Rightarrow> state \<Rightarrow> state" where
  "step cb (Request event) s = snd (request cb event s)"
| "step cb (Callback k c) s = callback k c s"
| "step cb (Settle k res) s = settle k res s"
| "step cb Cleanup s = cleanupAllSessions s"

fun exec :: "callbacks \<Rightarrow> action list \<Rightarrow> state \<Rightarrow> state" where
  "exec cb [] s = s"
| "exec cb (a # as) s = exec cb as (step cb a s)"

section \<open>Message renderer\<close>

text \<open>
  What \<^verbatim>\<open>MessageCard\<close> returns: \<^verbatim>\<open>null\<close>, an element of one of the card components
  with its props, or the error block built from \<^verbatim>\<open>div\<close> and \<^verbatim>\<open>pre\<close> elements (tag, class
  name, children).
\<close>

datatype element =
    UserPromptCard StreamMessage bool
  | InitCard StreamMessage bool
  | AssistantCard StreamMessage bool
  | ReasoningCard StreamMessage bool
  | ToolCallCard StreamMessage bool "string option" "nat option"
  | ToolResultCard StreamMessage
  | Tag string string "element list"
  | Text string

text \<open>\<^verbatim>\<open>sdkMessage.error || "Unknown error"\<close>: an absent or empty text gives the default.\<close>

definition error_text :: "string option \<Rightarrow> string" where
  "error_text e =
     (case e of Some t \<Rightarrow> if t \<noteq> [] then t else ''Unknown error'' | None \<Rightarrow> ''Unknown error'')"

fun MessageCard ::
  "StreamMessage \<Rightarrow> bool \<Rightarrow> bool \<Rightarrow> string option \<Rightarrow> nat option \<Rightarrow> element option" where
  "MessageCard (UserPromptMessage p) isLast isRunning permissionRequest onPermissionResult =
     Some (UserPromptCard (UserPromptMessage p) (isLast \<and> isRunning))"
| "MessageCard (SDKInit c m) isLast isRunning permissionRequest onPermissionResult =
     Some (InitCard (SDKInit c m) (isLast \<and> isRunning))"
| "MessageCard (SDKAssistant c) isLast isRunning permissionRequest onPermissionResult =
     Some (AssistantCard (SDKAssistant c) (isLast \<and> isRunning))"
| "MessageCard (SDKReasoning c) isLast isRunning permissionRequest onPermissionResult =
     Some (ReasoningCard (SDKReasoning c) (isLast \<and> isRunning))"
| "MessageCard (SDKToolCall i n inp) isLast isRunning permissionRequest onPermissionResult =
     Some (ToolCallCard (SDKToolCall i n inp) (isLast \<and> isRunning)
             permissionRequest onPermissionResult)"
| "MessageCard (SDKToolResult i c e) isLast isRunning permissionRequest onPermissionResult =
     Some (ToolResultCard (SDKToolResult i c e))"
| "MessageCard (SDKResult success err) isLast isRunning permissionRequest onPermissionResult =
     (if success then None
      else Some (Tag ''div'' ''flex flex-col gap-2 mt-4''
             [Tag ''div'' ''header text-error'' [Text ''Error''],
              Tag ''div'' ''rounded-xl bg-error-light p-3''
                [Tag ''pre'' ''text-sm text-error whitespace-pre-wrap'' [Text (error_text err)]]]))"
| "MessageCard (SDKOther t) isLast isRunning permissionRequest onPermissionResult = None"

section \<open>Notions used to state the properties\<close>

fun is_session_status :: "ServerEvent \<Rightarrow> bool" where
  "is_session_status (S_session_status _ _ _ _ _) = True"
| "is_session_status _ = False"

text \<open>The status carried by the last \<^verbatim>\<open>session.status\<close> event for an id in a log.\<close>

definition last_status :: "string \<Rightarrow> ServerEvent list \<Rightarrow> SessionStatus option" where
  "last_status sid es =
     foldl (\<lambda>acc e. case e of
                       S_session_status sid' st _ _ _ \<Rightarrow> if sid' = sid then Some st else acc
                     | _ \<Rightarrow> acc) None es"

definition status_agrees :: "state \<Rightarrow> bool" where
  "status_agrees s =
     (\<forall>sid session. sessions s sid = Some session \<longrightarrow>
        last_status sid (sent s) = Some (status session))"

fun is_running_status :: "string \<Rightarrow> ServerEvent \<Rightarrow> bool" where
  "is_running_status cid (S_session_status sid st _ _ _) = (sid = cid \<and> st = Running)"
| "is_running_status cid _ = False"

fun is_running :: "ServerEvent \<Rightarrow> bool" where
  "is_running (S_session_status sid st _ _ _) = (st = Running)"
| "is_running _ = False"

text \<open>
  The actions that leave the announcement of conversation \<open>cid\<close> by run \<open>k\<close> alone:
  every request but a \<^verbatim>\<open>session.continue\<close> of \<open>cid\<close>, every event a runner passes to
  \<^verbatim>\<open>onEvent\<close> but a \<^verbatim>\<open>session.status\<close> with status running, every session update but
  one by which another run reports the same \<open>cid\<close>, every settlement, and the cleanup.
  \<open>acknowledges k\<close> holds of a session update of run \<open>k\<close> that carries a conversation id.
\<close>

fun quiet :: "nat \<Rightarrow> string \<Rightarrow> action \<Rightarrow> bool" where
  "quiet k cid (Request (C_session_continue sid p w)) = (sid \<noteq> cid)"
| "quiet k cid (Request ev) = True"
| "quiet k cid (Callback j (OnEvent e)) = (\<not> is_running e)"
| "quiet k cid (Callback j (OnSessionUpdate u)) = (j = k \<or> u \<noteq> Some cid)"
| "quiet k cid (Settle j res) = True"
| "quiet k cid Cleanup = True"

fun acknowledges :: "nat \<Rightarrow> action \<Rightarrow> bool" where
  "acknowledges k (Callback j (OnSessionUpdate u)) = (j = k \<and> truthy u)"
| "acknowledges k a = False"

text \<open>
  The state of the \<^verbatim>\<open>session.start\<close> closures of run \<open>k\<close> before and after the first
  session update that carries a conversation id.
\<close>

definition unacked :: "nat \<Rightarrow> string \<Rightarrow> string option \<Rightarrow> state \<Rightarrow> bool" where
  "unacked k prompt cwd t =
     (k < length (runs t) \<and> r_origin (runs t ! k) = OfStart
      \<and> \<not> truthy (r_conversationId (runs t ! k))
      \<and> r_prompt (runs t ! k) = prompt \<and> r_cwd (runs t ! k) = cwd)"

definition acked :: "nat \<Rightarrow> string \<Rightarrow> state \<Rightarrow> bool" where
  "acked k cid t =
     (k < length (runs t) \<and> r_origin (runs t ! k) = OfStart
      \<and> r_conversationId (runs t ! k) = Some cid \<and> cid \<noteq> [])"

text \<open>
  A step from \<open>t\<close> to \<open>t'\<close> that keeps the closures of run \<open>k\<close> as they are, and one that
  broadcasts no running status for \<open>cid\<close>.
\<close>

definition same_closure :: "nat \<Rightarrow> state \<Rightarrow> state \<Rightarrow> bool" where
  "same_closure k t t' =
     (k < length (runs t')
      \<and> r_origin (runs t' ! k) = r_origin (runs t ! k)
      \<and> r_conversationId (runs t' ! k) = r_conversationId (runs t ! k)
      \<and> r_prompt (runs t' ! k) = r_prompt (runs t ! k)
      \<and> r_cwd (runs t' ! k) = r_cwd (runs t ! k))"

definition silent :: "string \<Rightarrow> state \<Rightarrow> state \<Rightarrow> bool" where
  "silent cid t t' =
     (\<exists>es. sent t' = sent t @ es \<and> filter (is_running_status cid) es = [])"

subsection \<open>Concrete inputs\<close>

text \<open>A permission callback that leaves the pending-permission maps alone.\<close>

definition keep :: callbacks where
  "keep n r h = h"

definition ex_session :: RuntimeSession where
  "ex_session = \<lparr>conversationId = ''a'', agentId = None, status = Running,
     pendingPermissions = 0, abortController = None\<rparr>"

text \<open>A permission callback that deletes the entry \<open>t\<close> of the map at address \<open>a\<close>.\<close>

definition forget :: "nat \<Rightarrow> string \<Rightarrow> callbacks" where
  "forget a t n r h = h(a := (h a)(t := None))"

definition ex_pending :: PendingPermission where
  "ex_pending = \<lparr>toolUseId = ''t'', toolName = ''Bash'', input = ''ls'', resolve = 7\<rparr>"

text \<open>A state with one running session that has one pending permission.\<close>

definition ex_state :: state where
  "ex_state = init\<lparr>sessions := [''a'' \<mapsto> ex_session],
     pendingMaps := (\<lambda>_. Map.empty)(0 := [''t'' \<mapsto> ex_pending]), nextMap := 1\<rparr>"

text \<open>
  A continued conversation \<^verbatim>\<open>c\<close> whose runner returned handle 1, then a new
  \<^verbatim>\<open>session.start\<close> whose runner returns handle 2: in the first trace the runner reports
  the conversation id \<^verbatim>\<open>c\<close> before its promise resolves, in the second the promise
  resolves first.
\<close>

definition ex_early_ack :: "action list" where
  "ex_early_ack =
     [Request (C_session_continue ''c'' ''hello'' None), Settle 0 (Returns 1),
      Request (C_session_start ''title'' ''again'' None None),
      Callback 1 (OnSessionUpdate (Some ''c'')), Settle 1 (Returns 2)]"

definition ex_late_ack :: "action list" where
  "ex_late_ack =
     [Request (C_session_continue ''c'' ''hello'' None), Settle 0 (Returns 1),
      Request (C_session_start ''title'' ''again'' None None), Settle 1 (Returns 2)]"

text \<open>
  What happens around the first session update of run 0: before it a stream message, an
  update without id and a \<^verbatim>\<open>session.list\<close> request; after it the settlement, another
  update, a stream message, the runner's own \<^verbatim>\<open>session.status\<close> completed event and a
  \<^verbatim>\<open>session.stop\<close> request.
\<close>

definition ex_pre :: "action list" where
  "ex_pre =
     [Callback 0 (OnEvent (S_stream_message ''pending'' (SDKInit (Some ''c'') None))),
      Callback 0 (OnSessionUpdate None),
      Request C_session_list]"

definition ex_post :: "action list" where
  "ex_post =
     [Settle 0 (Returns 5), Callback 0 (OnSessionUpdate (Some ''d'')),
      Callback 0 (OnEvent (S_stream_message ''pending'' (SDKAssistant ''hi''))),
      Callback 0 (OnEvent (S_session_status ''pending'' Completed None None None)),
      Request (C_session_stop ''c'')]"

text \<open>
  A runner that, after reporting the conversation id \<^verbatim>\<open>c\<close>, passes a
  \<^verbatim>\<open>session.status\<close> running event of its own to \<^verbatim>\<open>onEvent\<close>.
\<close>

definition ex_runner_says_running :: "action list" where
  "ex_runner_says_running =
     [Request (C_session_start ''title'' ''hello'' None None),
      Callback 0 (OnSessionUpdate (Some ''c'')),
      Callback 0 (OnEvent (S_session_status ''pending'' Running None None None))]"

definition ex_failed_continue :: "action list" where
  "ex_failed_continue =
     [Request (C_session_continue ''c'' ''hello'' None), Settle 0 (Throws (ThrownString ''boom''))]"

section \<open>Basic facts about the table and the router\<close>

lemma assign_status_only [simp]: "assign x (status_only st) = x\<lparr>status := st\<rparr>"
  by (simp add: assign_def status_only_def)

lemma updateSession_status:
  "snd (updateSession sid (status_only st) s) =
     (case sessions s sid of
        Some session \<Rightarrow> s\<lparr>sessions := (sessions s)(sid \<mapsto> session\<lparr>status := st\<rparr>)\<rparr>
      | None \<Rightarrow> s)"
  by (simp add: updateSession_def split: option.splits)

lemma createRuntimeSession_eq:
  "createRuntimeSession cid s =
     (\<lparr>conversationId = cid, agentId = None, status = Idle,
       pendingPermissions = nextMap s, abortController = None\<rparr>,
      s\<lparr>pendingMaps := (pendingMaps s)(nextMap s := Map.empty), nextMap := Suc (nextMap s),
        sessions := (sessions s)(cid \<mapsto> \<lparr>conversationId = cid, agentId = None, status = Idle,
           pendingPermissions = nextMap s, abortController = None\<rparr>)\<rparr>)"
  by (simp add: createRuntimeSession_def new_Map_def Let_def)

lemma emit_fields [simp]:
  "sent (emit e s) = sent s @ [e]"
  "runs (emit e s) = runs s"
  "runnerHandles (emit e s) = runnerHandles s"
  "pendingMaps (emit e s) = pendingMaps s"
  "nextMap (emit e s) = nextMap s"
  "aborted (emit e s) = aborted s"
  "resolved (emit e s) = resolved s"
  "console (emit e s) = console s"
  by (simp_all add: emit_def broadcast_def updateSession_def split: ServerEvent.splits option.splits)

lemma emit_sessions:
  "sessions (emit e s) =
     (case e of
        S_session_status sid st _ _ _ \<Rightarrow>
          (case sessions s sid of
             Some session \<Rightarrow> (sessions s)(sid \<mapsto> session\<lparr>status := st\<rparr>)
           | None \<Rightarrow> sessions s)
      | _ \<Rightarrow> sessions s)"
  by (simp add: emit_def broadcast_def updateSession_status
           split: ServerEvent.splits option.splits)

lemma emit_dom: "(sessions (emit e s) sid = None) = (sessions s sid = None)"
  by (auto simp: emit_sessions split: ServerEvent.splits option.splits)

lemma abort_handle_fields [simp]:
  "sessions (abort_handle sid s) = sessions s"
  "sent (abort_handle sid s) = sent s"
  "runs (abort_handle sid s) = runs s"
  "pendingMaps (abort_handle sid s) = pendingMaps s"
  by (simp_all add: abort_handle_def split: option.splits)

lemma abort_handle_absent:
  "map_of (runnerHandles s) sid = None \<Longrightarrow> abort_handle sid s = s"
  by (simp add: abort_handle_def)

lemma abort_handle_clears:
  "map_of (runnerHandles (abort_handle sid s)) sid = None"
  by (simp add: abort_handle_def delete_conv' split: option.splits)

lemma request_start:
  "request cb (C_session_start title prompt cwd tools) s =
     (Pending,
      s\<lparr>pendingMaps := (pendingMaps s)(nextMap s := Map.empty), nextMap := Suc (nextMap s),
        runs := runs s @
          [\<lparr>r_origin = OfStart,
            r_options = \<lparr>ro_prompt = prompt,
              ro_session = \<lparr>rs_id = ''pending'', rs_title = title, rs_status = Running,
                rs_cwd = cwd, rs_pendingPermissions = nextMap s\<rparr>,
              ro_resumeConversationId = None\<rparr>,
            r_prompt = prompt, r_cwd = cwd, r_conversationId = None, r_handle = None,
            r_promise = Pending\<rparr>]\<rparr>)"
  by (simp add: new_Map_def call_runLetta_def)

lemma request_continue:
  "request cb (C_session_continue sid p w) s =
     (Pending,
      call_runLetta (OfContinue sid)
        \<lparr>ro_prompt = p,
         ro_session = \<lparr>rs_id = sid, rs_title = sid, rs_status = Running, rs_cwd = w,
           rs_pendingPermissions =
             (case sessions s sid of Some session \<Rightarrow> pendingPermissions session
              | None \<Rightarrow> nextMap s)\<rparr>,
         ro_resumeConversationId = Some sid\<rparr> p w
        (emit (S_stream_user_prompt sid p)
          (emit (S_session_status sid Running None None None)
            (snd (updateSession sid (status_only Running)
              (case sessions s sid of Some session \<Rightarrow> s
               | None \<Rightarrow> snd (createRuntimeSession sid s)))))))"
  by (simp add: Let_def getSession_def createRuntimeSession_eq split: option.splits)

lemma request_continue_run:
  "runs (snd (request cb (C_session_continue sid p w) s)) =
     runs s @ [\<lparr>r_origin = OfContinue sid,
        r_options = \<lparr>ro_prompt = p,
         ro_session = \<lparr>rs_id = sid, rs_title = sid, rs_status = Running, rs_cwd = w,
           rs_pendingPermissions =
             (case sessions s sid of Some session \<Rightarrow> pendingPermissions session
              | None \<Rightarrow> nextMap s)\<rparr>,
         ro_resumeConversationId = Some sid\<rparr>,
        r_prompt = p, r_cwd = w, r_conversationId = None, r_handle = None,
        r_promise = Pending\<rparr>]"
  unfolding request_continue
  by (simp add: call_runLetta_def updateSession_status createRuntimeSession_eq split: option.splits)

lemma request_continue_present:
  "sessions (snd (request cb (C_session_continue sid p w) s)) sid \<noteq> None"
  unfolding request_continue
  by (simp add: call_runLetta_def updateSession_status createRuntimeSession_eq emit_sessions
        split: option.splits)

lemma stop_eq:
  "request cb (C_session_stop sid) s =
     (Fulfilled, emit (S_session_status sid Idle None None None)
        (snd (updateSession sid (status_only Idle) (abort_handle sid s))))"
  by (simp add: Let_def)

lemma delete_eq:
  "request cb (C_session_delete sid) s =
     (Fulfilled, emit (S_session_deleted sid) (snd (deleteSession sid (abort_handle sid s))))"
  by (simp add: Let_def)

lemma start_onSessionUpdate_ack:
  assumes "truthy u" "\<not> truthy (r_conversationId (runs s ! k))"
  shows "start_onSessionUpdate k u s =
     emit (S_stream_user_prompt (the u) (r_prompt (runs s ! k)))
       (emit (S_session_status (the u) Running (Some (the u)) (r_cwd (runs s ! k)) None)
         (s\<lparr>runs := (runs s)[k := (runs s ! k)\<lparr>r_conversationId := Some (the u)\<rparr>],
            pendingMaps := (pendingMaps s)(nextMap s := Map.empty),
            nextMap := Suc (nextMap s),
            sessions := (sessions s)(the u \<mapsto>
               \<lparr>conversationId = the u, agentId = None, status = Running,
                 pendingPermissions = nextMap s, abortController = None\<rparr>),
            runnerHandles :=
              (case r_handle (runs s ! k) of
                 Some handle \<Rightarrow> AList.update (the u) handle (runnerHandles s)
               | None \<Rightarrow> runnerHandles s)\<rparr>))"
  using assms
  by (simp add: start_onSessionUpdate_def Let_def set_run_def createRuntimeSession_eq
        updateSession_status split: option.splits)

lemma start_onSessionUpdate_ignored:
  "\<not> truthy u \<or> truthy (r_conversationId (runs s ! k)) \<Longrightarrow> start_onSessionUpdate k u s = s"
  by (auto simp: start_onSessionUpdate_def Let_def)

lemma handle_sync:
  "fst (request cb ev s) \<noteq> Pending \<Longrightarrow> handleClientEvent cb ev runner s = request cb ev s"
  by (cases "request cb ev s") (auto simp: handleClientEvent_def split: promise.splits)

lemma handle_async:
  "fst (request cb ev s) = Pending \<Longrightarrow>
     handleClientEvent cb ev runner s =
       (r_promise (runs (settle (length (runs s)) (snd runner)
            (foldl (\<lambda>t c. callback (length (runs s)) c t) (snd (request cb ev s)) (fst runner)))
            ! length (runs s)),
        settle (length (runs s)) (snd runner)
            (foldl (\<lambda>t c. callback (length (runs s)) c t) (snd (request cb ev s)) (fst runner)))"
  by (cases "request cb ev s") (simp add: handleClientEvent_def Let_def)

lemma callback_run:
  assumes "k < length (runs s)"
  shows "length (runs (callback k c s)) = length (runs s)"
    and "r_origin (runs (callback k c s) ! j) = r_origin (runs s ! j)"
    and "r_promise (runs (callback k c s) ! j) = r_promise (runs s ! j)"
    and "r_handle (runs (callback k c s) ! j) = r_handle (runs s ! j)"
    and "r_prompt (runs (callback k c s) ! j) = r_prompt (runs s ! j)"
    and "r_cwd (runs (callback k c s) ! j) = r_cwd (runs s ! j)"
proof -
  have "length (runs (callback k c s)) = length (runs s)
    \<and> r_origin (runs (callback k c s) ! j) = r_origin (runs s ! j)
    \<and> r_promise (runs (callback k c s) ! j) = r_promise (runs s ! j)
    \<and> r_handle (runs (callback k c s) ! j) = r_handle (runs s ! j)
    \<and> r_prompt (runs (callback k c s) ! j) = r_prompt (runs s ! j)
    \<and> r_cwd (runs (callback k c s) ! j) = r_cwd (runs s ! j)"
  proof (cases c)
    case (OnEvent e)
    then show ?thesis
      by (simp add: callback_def start_onEvent_def Let_def split: origin.splits)
  next
    case (OnSessionUpdate u)
    show ?thesis
    proof (cases "truthy u \<and> \<not> truthy (r_conversationId (runs s ! k))")
      case True
      then show ?thesis
        using assms
        by (simp add: OnSessionUpdate callback_def start_onSessionUpdate_ack nth_list_update
              split: origin.splits)
    next
      case False
      then show ?thesis
        by (simp add: OnSessionUpdate callback_def start_onSessionUpdate_ignored
              split: origin.splits)
    qed
  qed
  then show "length (runs (callback k c s)) = length (runs s)"
    and "r_origin (runs (callback k c s) ! j) = r_origin (runs s ! j)"
    and "r_promise (runs (callback k c s) ! j) = r_promise (runs s ! j)"
    and "r_handle (runs (callback k c s) ! j) = r_handle (runs s ! j)"
    and "r_prompt (runs (callback k c s) ! j) = r_prompt (runs s ! j)"
    and "r_cwd (runs (callback k c s) ! j) = r_cwd (runs s ! j)"
    by simp_all
qed

lemma callbacks_run:
  "k < length (runs s) \<Longrightarrow>
     length (runs (foldl (\<lambda>t c. callback k c t) s cbs)) = length (runs s)
     \<and> r_origin (runs (foldl (\<lambda>t c. callback k c t) s cbs) ! k) = r_origin (runs s ! k)
     \<and> r_promise (runs (foldl (\<lambda>t c. callback k c t) s cbs) ! k) = r_promise (runs s ! k)"
proof (induction cbs arbitrary: s)
  case Nil
  then show ?case by simp
next
  case (Cons c cbs)
  from Cons.prems have "k < length (runs (callback k c s))"
    by (simp add: callback_run(1))
  from Cons.IH [OF this] Cons.prems show ?case
    by (simp add: callback_run)
qed

lemma continue_callback:
  assumes "k < length (runs s)" "r_origin (runs s ! k) = OfContinue cid"
  shows "runs (callback k c s) = runs s"
    and "(sessions (callback k c s) sid = None) = (sessions s sid = None)"
  using assms
  by (simp_all add: callback_def emit_dom split: RunnerCallback.splits)

lemma continue_callbacks:
  "k < length (runs s) \<Longrightarrow> r_origin (runs s ! k) = OfContinue cid \<Longrightarrow>
     runs (foldl (\<lambda>t c. callback k c t) s cbs) = runs s
     \<and> (sessions (foldl (\<lambda>t c. callback k c t) s cbs) sid = None) = (sessions s sid = None)"
proof (induction cbs arbitrary: s)
  case Nil
  then show ?case by simp
next
  case (Cons c cbs)
  have "k < length (runs (callback k c s))" "r_origin (runs (callback k c s) ! k) = OfContinue cid"
    using Cons.prems by (simp_all add: continue_callback(1))
  from Cons.IH [OF this] Cons.prems show ?case
    by (simp add: continue_callback)
qed

lemmas eval_defs = init_def getSession_def createRuntimeSession_eq updateSession_status
  emit_sessions call_runLetta_def settle_def set_run_def Let_def callback_def new_Map_def
  start_onEvent_def start_onSessionUpdate_def handleClientEvent_def deleteSession_def
  abort_handle_def keep_def

section \<open>Failures of the runner\<close>

text \<open>
  C1 as stated fails for \<^verbatim>\<open>session.start\<close>: when the runner throws before it has
  reported a conversation id, the failure is caught and a \<^verbatim>\<open>runner.error\<close> event is
  broadcast, but the session table stays empty, so no session is marked as error.
\<close>

theorem start_failure_marks_no_session_counterexample:
  "handleClientEvent keep (C_session_start ''title'' ''hello'' None None)
     ([], Throws (ThrownString ''boom'')) init =
     (Fulfilled,
      init\<lparr>pendingMaps := (\<lambda>_. Map.empty)(0 := Map.empty), nextMap := 1,
        runs := [\<lparr>r_origin = OfStart,
            r_options = \<lparr>ro_prompt = ''hello'',
              ro_session = \<lparr>rs_id = ''pending'', rs_title = ''title'', rs_status = Running,
                rs_cwd = None, rs_pendingPermissions = 0\<rparr>,
              ro_resumeConversationId = None\<rparr>,
            r_prompt = ''hello'', r_cwd = None, r_conversationId = None, r_handle = None,
            r_promise = Fulfilled\<rparr>],
        sent := [S_runner_error None ''boom''],
        console := [ThrownString ''boom'']\<rparr>)
   \<and> dom (sessions (snd (handleClientEvent keep (C_session_start ''title'' ''hello'' None None)
     ([], Throws (ThrownString ''boom'')) init))) = {}"
  by (simp add: eval_defs)

text \<open>
  C1 (amended). In an uninterrupted call of \<^verbatim>\<open>handleClientEvent\<close> whose call of
  \<^verbatim>\<open>runLetta\<close> throws, the failure is caught and the promise returned to the caller is
  fulfilled. For \<^verbatim>\<open>session.start\<close> a \<^verbatim>\<open>runner.error\<close> event is broadcast whose message is
  the stringified thrown value, and the value is written to the console. For
  \<^verbatim>\<open>session.continue\<close> a \<^verbatim>\<open>session.status\<close> event with status error is broadcast whose
  error field is the stringified thrown value, and the session is marked as error in the
  table.
\<close>

theorem runner_failure_is_caught:
  "(let s0 = foldl (\<lambda>t c. callback (length (runs s)) c t)
               (snd (request cb (C_session_start title prompt cwd tools) s)) cbs;
        r = handleClientEvent cb (C_session_start title prompt cwd tools) (cbs, Throws err) s
    in fst r = Fulfilled
       \<and> sent (snd r) = sent s0 @ [S_runner_error None (String_js err)]
       \<and> console (snd r) = console s0 @ [err])
   \<and> (let s0 = foldl (\<lambda>t c. callback (length (runs s)) c t)
               (snd (request cb (C_session_continue sid prompt cwd) s)) cbs;
        r = handleClientEvent cb (C_session_continue sid prompt cwd) (cbs, Throws err) s
    in fst r = Fulfilled
       \<and> sent (snd r) = sent s0 @ [S_session_status sid Error None None (Some (String_js err))]
       \<and> (\<exists>session. sessions (snd r) sid = Some session \<and> status session = Error))"
proof -
  define k where "k = length (runs s)"
  define a where "a = snd (request cb (C_session_start title prompt cwd tools) s)"
  define a0 where "a0 = foldl (\<lambda>t c. callback k c t) a cbs"
  have a: "k < length (runs a)" "r_origin (runs a ! k) = OfStart"
      "r_promise (runs a ! k) = Pending"
    by (simp_all del: request.simps add: a_def k_def request_start)
  from callbacks_run [OF a(1), of cbs] a
  have a0: "k < length (runs a0)" "r_origin (runs a0 ! k) = OfStart"
      "r_promise (runs a0 ! k) = Pending"
    by (simp_all add: a0_def)
  have A: "r_promise (runs (settle k (Throws err) a0) ! k) = Fulfilled
       \<and> sent (settle k (Throws err) a0) = sent a0 @ [S_runner_error None (String_js err)]
       \<and> console (settle k (Throws err) a0) = console a0 @ [err]"
    using a0 by (simp add: settle_def Let_def set_run_def)
  define b where "b = snd (request cb (C_session_continue sid prompt cwd) s)"
  define b0 where "b0 = foldl (\<lambda>t c. callback k c t) b cbs"
  have b: "k < length (runs b)" "r_origin (runs b ! k) = OfContinue sid"
      "r_promise (runs b ! k) = Pending" "sessions b sid \<noteq> None"
    by (simp_all del: request.simps add: b_def k_def request_continue_run request_continue_present)
  from continue_callbacks [OF b(1,2), of cbs sid] b
  have b0: "k < length (runs b0)" "r_origin (runs b0 ! k) = OfContinue sid"
      "r_promise (runs b0 ! k) = Pending" "sessions b0 sid \<noteq> None"
    by (simp_all add: b0_def)
  have B: "r_promise (runs (settle k (Throws err) b0) ! k) = Fulfilled
       \<and> sent (settle k (Throws err) b0) =
           sent b0 @ [S_session_status sid Error None None (Some (String_js err))]
       \<and> (\<exists>session. sessions (settle k (Throws err) b0) sid = Some session
              \<and> status session = Error)"
    using b0
    by (auto simp: settle_def Let_def set_run_def updateSession_status emit_sessions
          split: option.splits)
  have ha: "fst (request cb (C_session_start title prompt cwd tools) s) = Pending"
    by (simp del: request.simps add: request_start)
  have hb: "fst (request cb (C_session_continue sid prompt cwd) s) = Pending"
    by (simp del: request.simps add: request_continue)
  show ?thesis
    unfolding Let_def handle_async [OF ha] handle_async [OF hb] fst_conv snd_conv
    using A B unfolding a0_def b0_def a_def b_def k_def by blast
qed

section \<open>Stopping and deleting\<close>

text \<open>
  C2. For every conversation id a \<^verbatim>\<open>session.stop\<close> and a \<^verbatim>\<open>session.delete\<close> request
  complete normally. For an id with no runner handle and no session they change nothing
  but the log of broadcast events (one \<^verbatim>\<open>session.status\<close> idle event, one
  \<^verbatim>\<open>session.deleted\<close> event): an absent session stays absent. For any id, handling the
  same request a second time leaves the session table, the runner handles, the
  pending-permission maps and the list of aborted handles as the first call left them.
\<close>

theorem stop_and_delete_are_safe:
  "fst (handleClientEvent cb (C_session_stop sid) runner s) = Fulfilled
   \<and> fst (handleClientEvent cb (C_session_delete sid) runner s) = Fulfilled
   \<and> (sessions s sid = None \<and> map_of (runnerHandles s) sid = None \<longrightarrow>
        snd (handleClientEvent cb (C_session_stop sid) runner s) =
          s\<lparr>sent := sent s @ [S_session_status sid Idle None None None]\<rparr>
        \<and> snd (handleClientEvent cb (C_session_delete sid) runner s) =
          s\<lparr>sent := sent s @ [S_session_deleted sid]\<rparr>)
   \<and> (sessions s sid = None \<longrightarrow>
        sessions (snd (handleClientEvent cb (C_session_stop sid) runner s)) = sessions s
        \<and> sessions (snd (handleClientEvent cb (C_session_delete sid) runner s)) = sessions s)
   \<and> (let s1 = snd (handleClientEvent cb (C_session_stop sid) runner s);
            s2 = snd (handleClientEvent cb (C_session_stop sid) runner' s1)
        in sessions s2 = sessions s1 \<and> runnerHandles s2 = runnerHandles s1
           \<and> pendingMaps s2 = pendingMaps s1 \<and> nextMap s2 = nextMap s1 \<and> runs s2 = runs s1
           \<and> aborted s2 = aborted s1)
   \<and> (let s1 = snd (handleClientEvent cb (C_session_delete sid) runner s);
            s2 = snd (handleClientEvent cb (C_session_delete sid) runner' s1)
        in sessions s2 = sessions s1 \<and> runnerHandles s2 = runnerHandles s1
           \<and> pendingMaps s2 = pendingMaps s1 \<and> nextMap s2 = nextMap s1 \<and> runs s2 = runs s1
           \<and> aborted s2 = aborted s1)"
proof -
  have hs: "handleClientEvent cb (C_session_stop sid) r t = request cb (C_session_stop sid) t" for r t
    by (rule handle_sync) (simp add: Let_def)
  have hd: "handleClientEvent cb (C_session_delete sid) r t = request cb (C_session_delete sid) t" for r t
    by (rule handle_sync) (simp add: Let_def)
  have absent: "sessions s sid = None \<and> map_of (runnerHandles s) sid = None \<longrightarrow>
        snd (request cb (C_session_stop sid) s) =
          s\<lparr>sent := sent s @ [S_session_status sid Idle None None None]\<rparr>
        \<and> snd (request cb (C_session_delete sid) s) =
          s\<lparr>sent := sent s @ [S_session_deleted sid]\<rparr>"
    by (simp add: abort_handle_absent updateSession_status deleteSession_def emit_def
          broadcast_def fun_upd_idem)
  have table: "sessions s sid = None \<longrightarrow>
        sessions (snd (request cb (C_session_stop sid) s)) = sessions s
        \<and> sessions (snd (request cb (C_session_delete sid) s)) = sessions s"
    by (auto simp: Let_def updateSession_status emit_sessions deleteSession_def fun_upd_idem)
  have gone: "map_of (runnerHandles (snd (request cb ev s))) sid = None"
    if "ev = C_session_stop sid \<or> ev = C_session_delete sid" for ev
    using that abort_handle_clears [of sid s]
    by (auto simp: Let_def updateSession_status deleteSession_def split: option.splits)
  have again: "sessions (snd (request cb ev t)) = sessions t
           \<and> runnerHandles (snd (request cb ev t)) = runnerHandles t
           \<and> pendingMaps (snd (request cb ev t)) = pendingMaps t
           \<and> nextMap (snd (request cb ev t)) = nextMap t
           \<and> runs (snd (request cb ev t)) = runs t
           \<and> aborted (snd (request cb ev t)) = aborted t"
    if "ev = C_session_stop sid \<or> ev = C_session_delete sid" "t = snd (request cb ev s)" for ev t
  proof -
    have h: "map_of (runnerHandles t) sid = None"
      using gone that by simp
    have "ev = C_session_stop sid \<Longrightarrow> sessions t sid = None \<or> (\<exists>x. sessions t sid = Some x \<and> status x = Idle)"
      using that(2)
      by (auto simp: Let_def updateSession_status emit_sessions split: option.splits)
    moreover have "ev = C_session_delete sid \<Longrightarrow> sessions t sid = None"
      using that(2) by (simp add: Let_def deleteSession_def emit_sessions)
    ultimately show ?thesis
      using that(1) h
      by (auto simp: Let_def abort_handle_absent updateSession_status emit_sessions
            deleteSession_def fun_upd_idem map_upd_triv split: option.splits)
  qed
  show ?thesis
    unfolding hs hd Let_def
    using absent table again [of "C_session_stop sid", OF _ refl]
      again [of "C_session_delete sid", OF _ refl]
    by (simp only: stop_eq delete_eq fst_conv simp_thms)
qed

theorem stop_and_delete_are_safe_witness:
  "sessions init ''x'' = None \<and> map_of (runnerHandles init) ''x'' = None
   \<and> handleClientEvent keep (C_session_stop ''x'') ([], Returns 0) init =
       (Fulfilled, init\<lparr>sent := [S_session_status ''x'' Idle None None None]\<rparr>)
   \<and> handleClientEvent keep (C_session_delete ''x'') ([], Returns 0) init =
       (Fulfilled, init\<lparr>sent := [S_session_deleted ''x'']\<rparr>)"
  using stop_and_delete_are_safe [of keep "''x''" "([], Returns 0)" init]
  by (simp add: init_def prod_eq_iff)

section \<open>Permission responses\<close>

text \<open>
  C3 as stated fails on the router alone: the handler calls the callback of the matching
  entry and never removes the entry, so with a callback that leaves the map alone two
  matching responses call it twice.
\<close>

theorem resolve_called_twice_counterexample:
  "resolved (exec keep
      [Request (C_permission_response ''a'' ''t'' (Allow [])),
       Request (C_permission_response ''a'' ''t'' (Deny []))] ex_state) =
     [(7, Allow []), (7, Deny [])]"
  by (simp add: ex_state_def ex_session_def ex_pending_def eval_defs)

lemma permission_response_absent:
  "sessions s sid = Some session \<Longrightarrow> pendingMaps s (pendingPermissions session) tid = None \<Longrightarrow>
     exec cb (map (\<lambda>r. Request (C_permission_response sid tid r)) rs) s = s"
  by (induction rs) (simp_all add: getSession_def)

text \<open>
  C3 (amended). A \<^verbatim>\<open>permission.response\<close> whose session exists and whose tool-use id has
  a pending entry calls the callback of that entry once, with the result of the event, and
  changes nothing else but what the callback does to the pending-permission maps. The
  handler does not remove the entry; when the callback has removed it, every later
  matching response is a no-op and the callback is not called again.
\<close>

theorem permission_response_calls_resolve:
  "sessions s sid = Some session \<and> pendingMaps s (pendingPermissions session) tid = Some pending \<longrightarrow>
     handleClientEvent cb (C_permission_response sid tid res) runner s =
       (Fulfilled,
        s\<lparr>pendingMaps := cb (resolve pending) res (pendingMaps s),
          resolved := resolved s @ [(resolve pending, res)]\<rparr>)
     \<and> (cb (resolve pending) res (pendingMaps s) (pendingPermissions session) tid = None \<longrightarrow>
          exec cb (map (\<lambda>r. Request (C_permission_response sid tid r)) rs)
            (snd (handleClientEvent cb (C_permission_response sid tid res) runner s)) =
          snd (handleClientEvent cb (C_permission_response sid tid res) runner s))"
proof (intro impI, elim conjE)
  assume a: "sessions s sid = Some session"
    "pendingMaps s (pendingPermissions session) tid = Some pending"
  have 1: "handleClientEvent cb (C_permission_response sid tid res) runner s =
       (Fulfilled,
        s\<lparr>pendingMaps := cb (resolve pending) res (pendingMaps s),
          resolved := resolved s @ [(resolve pending, res)]\<rparr>)"
    using a by (simp add: handleClientEvent_def getSession_def)
  show "handleClientEvent cb (C_permission_response sid tid res) runner s =
       (Fulfilled,
        s\<lparr>pendingMaps := cb (resolve pending) res (pendingMaps s),
          resolved := resolved s @ [(resolve pending, res)]\<rparr>)
     \<and> (cb (resolve pending) res (pendingMaps s) (pendingPermissions session) tid = None \<longrightarrow>
          exec cb (map (\<lambda>r. Request (C_permission_response sid tid r)) rs)
            (snd (handleClientEvent cb (C_permission_response sid tid res) runner s)) =
          snd (handleClientEvent cb (C_permission_response sid tid res) runner s))"
    unfolding 1 snd_conv
    using a by (auto intro!: permission_response_absent [where session = session])
qed

theorem permission_response_calls_resolve_witness:
  "sessions ex_state ''a'' = Some ex_session
   \<and> pendingMaps ex_state (pendingPermissions ex_session) ''t'' = Some ex_pending
   \<and> forget 0 ''t'' (resolve ex_pending) (Allow []) (pendingMaps ex_state)
        (pendingPermissions ex_session) ''t'' = None
   \<and> resolved (snd (handleClientEvent (forget 0 ''t'') (C_permission_response ''a'' ''t'' (Allow []))
        ([], Returns 0) ex_state)) = [(7, Allow [])]
   \<and> resolved (exec (forget 0 ''t'')
        (map (\<lambda>r. Request (C_permission_response ''a'' ''t'' r)) [Deny [], Allow []])
        (snd (handleClientEvent (forget 0 ''t'') (C_permission_response ''a'' ''t'' (Allow []))
           ([], Returns 0) ex_state))) = [(7, Allow [])]"
proof -
  have h: "sessions ex_state ''a'' = Some ex_session
     \<and> pendingMaps ex_state (pendingPermissions ex_session) ''t'' = Some ex_pending"
    by (simp add: ex_state_def ex_session_def)
  have g: "forget 0 ''t'' (resolve ex_pending) (Allow []) (pendingMaps ex_state)
        (pendingPermissions ex_session) ''t'' = None"
    by (simp add: forget_def ex_session_def)
  from permission_response_calls_resolve
    [of ex_state "''a''" ex_session "''t''" ex_pending "forget 0 ''t''" "Allow []"
        "([], Returns 0)" "[Deny [], Allow []]"] h g
  have 1: "handleClientEvent (forget 0 ''t'') (C_permission_response ''a'' ''t'' (Allow []))
        ([], Returns 0) ex_state =
       (Fulfilled,
        ex_state\<lparr>pendingMaps := forget 0 ''t'' (resolve ex_pending) (Allow []) (pendingMaps ex_state),
          resolved := resolved ex_state @ [(resolve ex_pending, Allow [])]\<rparr>)"
    and 2: "exec (forget 0 ''t'')
        (map (\<lambda>r. Request (C_permission_response ''a'' ''t'' r)) [Deny [], Allow []])
        (snd (handleClientEvent (forget 0 ''t'') (C_permission_response ''a'' ''t'' (Allow []))
           ([], Returns 0) ex_state)) =
        snd (handleClientEvent (forget 0 ''t'') (C_permission_response ''a'' ''t'' (Allow []))
           ([], Returns 0) ex_state)"
    by blast+
  have 3: "resolved (snd (handleClientEvent (forget 0 ''t'')
        (C_permission_response ''a'' ''t'' (Allow [])) ([], Returns 0) ex_state)) = [(7, Allow [])]"
    unfolding 1 by (simp add: ex_state_def init_def ex_pending_def)
  show ?thesis
    unfolding 2 using h g 3 by blast
qed

text \<open>
  C6. A \<^verbatim>\<open>permission.response\<close> for a session id that is not in the session table is
  ignored: the call completes normally and the state, with its log of broadcast events, is
  unchanged. The same holds when the session exists and its pending-permission map has no
  entry for the tool-use id of the event.
\<close>

theorem permission_response_without_target:
  "(sessions s sid = None \<longrightarrow>
      handleClientEvent cb (C_permission_response sid tid res) runner s = (Fulfilled, s))
   \<and> (sessions s sid = Some session \<and> pendingMaps s (pendingPermissions session) tid = None \<longrightarrow>
      handleClientEvent cb (C_permission_response sid tid res) runner s = (Fulfilled, s))"
  by (simp add: handleClientEvent_def getSession_def)

theorem permission_response_without_target_witness:
  "sessions init ''a'' = None
   \<and> handleClientEvent keep (C_permission_response ''a'' ''t'' (Allow [])) ([], Returns 0) init
       = (Fulfilled, init)
   \<and> sessions (init\<lparr>sessions := [''a'' \<mapsto> ex_session]\<rparr>) ''a'' = Some ex_session
   \<and> pendingMaps (init\<lparr>sessions := [''a'' \<mapsto> ex_session]\<rparr>) (pendingPermissions ex_session) ''t'' = None
   \<and> handleClientEvent keep (C_permission_response ''a'' ''t'' (Allow []))
        ([], Returns 0) (init\<lparr>sessions := [''a'' \<mapsto> ex_session]\<rparr>)
       = (Fulfilled, init\<lparr>sessions := [''a'' \<mapsto> ex_session]\<rparr>)"
  using permission_response_without_target
     [of init "''a''" keep "''t''" "Allow []" "([], Returns 0)" ex_session]
    permission_response_without_target
     [of "init\<lparr>sessions := [''a'' \<mapsto> ex_session]\<rparr>" "''a''" keep "''t''" "Allow []"
         "([], Returns 0)" ex_session]
  by (simp add: init_def ex_session_def)

section \<open>The first session update of a started run\<close>

lemma not_running:
  "\<not> is_running e \<Longrightarrow> \<not> is_running_status cid e"
  "\<not> is_running e \<Longrightarrow> \<not> is_running_status cid (set_sessionId c e)"
  by (cases e; simp)+

lemma silent_refl: "silent cid t t"
  by (simp add: silent_def)

lemma silent_trans: "silent cid t t' \<Longrightarrow> silent cid t' t'' \<Longrightarrow> silent cid t t''"
  by (auto simp: silent_def)

lemma silent_emit: "\<not> is_running_status cid e \<Longrightarrow> sent t' = sent t \<Longrightarrow> silent cid t (emit e t')"
  by (simp add: silent_def)

lemma same_closure_trans:
  "same_closure k t t' \<Longrightarrow> same_closure k t' t'' \<Longrightarrow> same_closure k t t''"
  by (simp add: same_closure_def)

lemma same_closure_runs:
  "k < length (runs t) \<Longrightarrow> runs t' = runs t \<Longrightarrow> same_closure k t t'"
  by (simp add: same_closure_def)

lemma unacked_same: "unacked k p w t \<Longrightarrow> same_closure k t t' \<Longrightarrow> unacked k p w t'"
  by (simp add: unacked_def same_closure_def)

lemma acked_same: "acked k cid t \<Longrightarrow> same_closure k t t' \<Longrightarrow> acked k cid t'"
  by (simp add: acked_def same_closure_def)

lemma request_frame:
  assumes "k < length (runs t)" "quiet k cid (Request ev)"
  shows "same_closure k t (snd (request cb ev t)) \<and> silent cid t (snd (request cb ev t))"
proof (cases ev)
  case (C_session_start ti p w a)
  show ?thesis
    unfolding C_session_start request_start
    using assms by (simp add: same_closure_def silent_def nth_append)
next
  case (C_session_continue sid p w)
  with assms have ne: "sid \<noteq> cid" by simp
  have "same_closure k t (snd (request cb (C_session_continue sid p w) t))"
    using assms(1)
    by (simp del: request.simps add: same_closure_def request_continue_run nth_append)
  moreover have "silent cid t (snd (request cb (C_session_continue sid p w) t))"
    unfolding request_continue
    using ne
    by (simp add: silent_def call_runLetta_def updateSession_status createRuntimeSession_eq
          split: option.splits)
  ultimately show ?thesis
    unfolding C_session_continue by simp
next
  case (C_session_stop sid)
  show ?thesis
    unfolding C_session_stop stop_eq
    using assms(1)
    by (simp add: same_closure_def silent_def updateSession_status split: option.splits)
next
  case (C_session_delete sid)
  show ?thesis
    unfolding C_session_delete delete_eq
    using assms(1)
    by (simp add: same_closure_def silent_def deleteSession_def)
next
  case C_session_list
  with assms(1) show ?thesis
    by (simp add: same_closure_def silent_def)
next
  case (C_session_history sid)
  with assms(1) show ?thesis
    by (simp add: same_closure_def silent_def)
next
  case (C_permission_response sid tid res)
  with assms(1) show ?thesis
    by (simp add: same_closure_def silent_def getSession_def split: option.splits)
qed

lemma settle_frame:
  assumes "k < length (runs t)"
  shows "same_closure k t (settle j res t) \<and> silent cid t (settle j res t)"
  using assms
  by (auto simp: settle_def Let_def set_run_def same_closure_def silent_def nth_list_update
        updateSession_status split: outcome.splits origin.splits option.splits)

lemma callback_other:
  assumes "k < length (runs t)" "j \<noteq> k" "quiet k cid (Callback j c)"
  shows "same_closure k t (callback j c t) \<and> silent cid t (callback j c t)"
proof (cases c)
  case (OnEvent e)
  with assms have "\<not> is_running e" by simp
  from not_running [OF this] assms(1) show ?thesis
    by (simp add: OnEvent callback_def start_onEvent_def Let_def same_closure_def silent_def
          split: origin.splits)
next
  case (OnSessionUpdate u)
  with assms have u: "u \<noteq> Some cid" by simp
  show ?thesis
  proof (cases "truthy u \<and> \<not> truthy (r_conversationId (runs t ! j))")
    case True
    with u have "the u \<noteq> cid" by (cases u) simp_all
    with True assms(1,2) show ?thesis
      by (simp add: OnSessionUpdate callback_def start_onSessionUpdate_ack same_closure_def
            silent_def split: origin.splits)
  next
    case False
    with assms(1) show ?thesis
      by (simp add: OnSessionUpdate callback_def start_onSessionUpdate_ignored same_closure_def
            silent_def split: origin.splits)
  qed
qed

lemma callback_own_unacked:
  assumes "unacked k p w t" "quiet k cid (Callback k c)" "\<not> acknowledges k (Callback k c)"
  shows "same_closure k t (callback k c t) \<and> silent cid t (callback k c t)"
proof (cases c)
  case (OnEvent e)
  with assms have "\<not> is_running e" by simp
  from not_running(1) [OF this] assms(1) show ?thesis
    by (simp add: OnEvent unacked_def callback_def start_onEvent_def Let_def same_closure_def
          silent_def)
next
  case (OnSessionUpdate u)
  with assms show ?thesis
    by (simp add: unacked_def callback_def start_onSessionUpdate_ignored same_closure_def
          silent_def)
qed

lemma callback_own_acked:
  assumes "acked k cid t" "quiet k cid (Callback k c)"
  shows "same_closure k t (callback k c t) \<and> silent cid t (callback k c t)"
proof (cases c)
  case (OnEvent e)
  with assms have "\<not> is_running e" by simp
  from not_running [OF this] assms(1) show ?thesis
    by (simp add: OnEvent acked_def callback_def start_onEvent_def Let_def same_closure_def
          silent_def)
next
  case (OnSessionUpdate u)
  with assms show ?thesis
    by (simp add: acked_def callback_def start_onSessionUpdate_ignored same_closure_def
          silent_def)
qed

lemma unacked_step:
  assumes "unacked k p w t" "quiet k cid a" "\<not> acknowledges k a"
  shows "unacked k p w (step cb a t) \<and> silent cid t (step cb a t)"
proof -
  from assms(1) have k: "k < length (runs t)" by (simp add: unacked_def)
  have "same_closure k t (step cb a t) \<and> silent cid t (step cb a t)"
  proof (cases a)
    case (Request ev)
    with request_frame [OF k, of cid ev cb] assms(2) show ?thesis by (simp del: request.simps)
  next
    case (Callback j c)
    show ?thesis
    proof (cases "j = k")
      case True
      with callback_own_unacked [OF assms(1), of cid c] assms(2,3) Callback show ?thesis by simp
    next
      case False
      with callback_other [OF k, of j cid c] assms(2) Callback show ?thesis by simp
    qed
  next
    case (Settle j res)
    with settle_frame [OF k] show ?thesis by simp
  next
    case Cleanup
    with k show ?thesis by (simp add: cleanupAllSessions_def same_closure_def silent_def)
  qed
  with assms(1) show ?thesis by (blast intro: unacked_same)
qed

lemma acked_step:
  assumes "acked k cid t" "quiet k cid a"
  shows "acked k cid (step cb a t) \<and> silent cid t (step cb a t)"
proof -
  from assms(1) have k: "k < length (runs t)" by (simp add: acked_def)
  have "same_closure k t (step cb a t) \<and> silent cid t (step cb a t)"
  proof (cases a)
    case (Request ev)
    with request_frame [OF k, of cid ev cb] assms(2) show ?thesis by (simp del: request.simps)
  next
    case (Callback j c)
    show ?thesis
    proof (cases "j = k")
      case True
      with callback_own_acked [OF assms(1), of c] assms(2) Callback show ?thesis by simp
    next
      case False
      with callback_other [OF k, of j cid c] assms(2) Callback show ?thesis by simp
    qed
  next
    case (Settle j res)
    with settle_frame [OF k] show ?thesis by simp
  next
    case Cleanup
    with k show ?thesis by (simp add: cleanupAllSessions_def same_closure_def silent_def)
  qed
  with assms(1) show ?thesis by (blast intro: acked_same)
qed

lemma unacked_exec:
  "unacked k p w t \<Longrightarrow> \<forall>a \<in> set as. quiet k cid a \<and> \<not> acknowledges k a \<Longrightarrow>
     unacked k p w (exec cb as t) \<and> silent cid t (exec cb as t)"
proof (induction as arbitrary: t)
  case Nil
  then show ?case by (simp add: silent_refl)
next
  case (Cons a as)
  from unacked_step [of k p w t cid a cb] Cons.prems
  have 1: "unacked k p w (step cb a t)" "silent cid t (step cb a t)"
    by simp_all
  from Cons.IH [OF 1(1)] Cons.prems
  have 2: "unacked k p w (exec cb as (step cb a t))"
    "silent cid (step cb a t) (exec cb as (step cb a t))"
    by simp_all
  from 1 2 show ?case
    by (simp del: step.simps) (blast intro: silent_trans)
qed

lemma acked_exec:
  "acked k cid t \<Longrightarrow> \<forall>a \<in> set as. quiet k cid a \<Longrightarrow>
     acked k cid (exec cb as t) \<and> silent cid t (exec cb as t)"
proof (induction as arbitrary: t)
  case Nil
  then show ?case by (simp add: silent_refl)
next
  case (Cons a as)
  from acked_step [of k cid t a cb] Cons.prems
  have 1: "acked k cid (step cb a t)" "silent cid t (step cb a t)"
    by simp_all
  from Cons.IH [OF 1(1)] Cons.prems
  have 2: "acked k cid (exec cb as (step cb a t))"
    "silent cid (step cb a t) (exec cb as (step cb a t))"
    by simp_all
  from 1 2 show ?case
    by (simp del: step.simps) (blast intro: silent_trans)
qed

lemma acknowledgement:
  assumes "unacked k prompt cwd t" "cid \<noteq> []"
  shows "acked k cid (callback k (OnSessionUpdate (Some cid)) t)"
    and "sent (callback k (OnSessionUpdate (Some cid)) t) =
           sent t @ [S_session_status cid Running (Some cid) cwd None,
                     S_stream_user_prompt cid prompt]"
  using assms
  by (simp_all add: unacked_def acked_def callback_def start_onSessionUpdate_ack)

text \<open>
  C4 as stated fails when the runner itself passes a \<^verbatim>\<open>session.status\<close> running event
  to \<^verbatim>\<open>onEvent\<close> after its session update: the closure sets the session id of the event
  to the conversation id and emits it, so two running status events are broadcast for that
  conversation.
\<close>

theorem runner_says_running_counterexample:
  "filter (is_running_status ''c'') (sent (exec keep ex_runner_says_running init)) =
     [S_session_status ''c'' Running (Some ''c'') None None,
      S_session_status ''c'' Running None None None]"
  by (simp add: ex_runner_says_running_def eval_defs)

text \<open>
  C4 (amended). After a \<^verbatim>\<open>session.start\<close> request, the first session update of the new
  run that carries a conversation id broadcasts the \<^verbatim>\<open>session.status\<close> running event for
  that id, followed by the user prompt, ahead of everything broadcast afterwards. Among all
  events broadcast since the request it is the only running status for that id, whatever
  requests, runner callbacks and settlements are handled before and after it, as long as
  no runner passes a \<^verbatim>\<open>session.status\<close> event with status running to \<^verbatim>\<open>onEvent\<close>, no
  \<^verbatim>\<open>session.continue\<close> for that id is handled, and no other run reports the same id.
\<close>

theorem start_update_broadcasts_running_once:
  assumes "cid \<noteq> []"
    and "\<forall>a \<in> set pre. quiet (length (runs s)) cid a \<and> \<not> acknowledges (length (runs s)) a"
    and "\<forall>a \<in> set post. quiet (length (runs s)) cid a"
  shows "let k = length (runs s);
             s0 = exec cb pre (snd (request cb (C_session_start title prompt cwd tools) s));
             s' = exec cb post (callback k (OnSessionUpdate (Some cid)) s0)
         in take (length (sent s0) + 2) (sent s') =
              sent s0 @ [S_session_status cid Running (Some cid) cwd None,
                         S_stream_user_prompt cid prompt]
            \<and> filter (is_running_status cid) (drop (length (sent s)) (sent s')) =
                [S_session_status cid Running (Some cid) cwd None]"
proof -
  define k where "k = length (runs s)"
  define s1 where "s1 = snd (request cb (C_session_start title prompt cwd tools) s)"
  define s0 where "s0 = exec cb pre s1"
  define s2 where "s2 = callback k (OnSessionUpdate (Some cid)) s0"
  define s' where "s' = exec cb post s2"
  have s1: "unacked k prompt cwd s1" "sent s1 = sent s"
    by (simp_all del: request.simps add: s1_def k_def request_start unacked_def)
  from unacked_exec [OF s1(1), of pre cid cb] assms(2)
  obtain es where s0: "unacked k prompt cwd s0" "sent s0 = sent s1 @ es"
    "filter (is_running_status cid) es = []"
    by (auto simp: s0_def k_def silent_def)
  from acknowledgement [OF s0(1) assms(1)]
  have s2: "acked k cid s2"
    "sent s2 = sent s0 @ [S_session_status cid Running (Some cid) cwd None,
                     S_stream_user_prompt cid prompt]"
    by (simp_all add: s2_def)
  from acked_exec [OF s2(1), of post cb] assms(3)
  obtain es' where s': "sent s' = sent s2 @ es'" "filter (is_running_status cid) es' = []"
    by (auto simp: s'_def k_def silent_def)
  have "take (length (sent s0) + 2) (sent s') =
              sent s0 @ [S_session_status cid Running (Some cid) cwd None,
                         S_stream_user_prompt cid prompt]
     \<and> filter (is_running_status cid) (drop (length (sent s)) (sent s')) =
                [S_session_status cid Running (Some cid) cwd None]"
    using s1(2) s0(2,3) s2(2) s'
    by simp
  then show ?thesis
    unfolding Let_def s'_def s2_def s0_def s1_def k_def .
qed

lemma ex_start_sent:
  "sent (exec keep ex_post (callback 0 (OnSessionUpdate (Some ''c''))
      (exec keep ex_pre (snd (request keep (C_session_start ''title'' ''hello'' None None) init))))) =
     [S_stream_message ''pending'' (SDKInit (Some ''c'') None),
      S_session_list [],
      S_session_status ''c'' Running (Some ''c'') None None,
      S_stream_user_prompt ''c'' ''hello'',
      S_stream_message ''c'' (SDKAssistant ''hi''),
      S_session_status ''c'' Completed None None None,
      S_session_status ''c'' Idle None None None]"
  by (simp add: ex_pre_def ex_post_def eval_defs)

theorem start_update_broadcasts_running_once_witness:
  "''c'' \<noteq> []
   \<and> list_all (quiet (length (runs init)) ''c'') (ex_pre @ ex_post)
   \<and> list_ex (acknowledges (length (runs init))) ex_pre = False
   \<and> sent (exec keep ex_post (callback 0 (OnSessionUpdate (Some ''c''))
      (exec keep ex_pre (snd (request keep (C_session_start ''title'' ''hello'' None None) init))))) =
     [S_stream_message ''pending'' (SDKInit (Some ''c'') None),
      S_session_list [],
      S_session_status ''c'' Running (Some ''c'') None None,
      S_stream_user_prompt ''c'' ''hello'',
      S_stream_message ''c'' (SDKAssistant ''hi''),
      S_session_status ''c'' Completed None None None,
      S_session_status ''c'' Idle None None None]
   \<and> filter (is_running_status ''c'')
        (sent (exec keep ex_post (callback 0 (OnSessionUpdate (Some ''c''))
          (exec keep ex_pre (snd (request keep (C_session_start ''title'' ''hello'' None None) init)))))) =
       [S_session_status ''c'' Running (Some ''c'') None None]"
proof -
  have h: "''c'' \<noteq> []"
    "\<forall>a \<in> set ex_pre. quiet (length (runs init)) ''c'' a \<and> \<not> acknowledges (length (runs init)) a"
    "\<forall>a \<in> set ex_post. quiet (length (runs init)) ''c'' a"
    by (simp_all add: ex_pre_def ex_post_def init_def)
  have 0: "length (runs init) = 0" "sent init = []"
    by (simp_all add: init_def)
  from start_update_broadcasts_running_once
         [OF h, of keep "''title''" "''hello''" None None]
  have "filter (is_running_status ''c'')
        (sent (exec keep ex_post (callback 0 (OnSessionUpdate (Some ''c''))
          (exec keep ex_pre (snd (request keep (C_session_start ''title'' ''hello'' None None) init)))))) =
       [S_session_status ''c'' Running (Some ''c'') None None]"
    unfolding Let_def 0 by simp
  moreover have "list_all (quiet (length (runs init)) ''c'') (ex_pre @ ex_post)"
    "list_ex (acknowledges (length (runs init))) ex_pre = False"
    by (simp_all add: ex_pre_def ex_post_def init_def)
  ultimately show ?thesis
    using h(1) ex_start_sent by blast
qed

section \<open>The runner handles\<close>

text \<open>
  C5 as stated fails for the acknowledgement of a \<^verbatim>\<open>session.start\<close>: when the runner
  reports the conversation id before its promise has resolved, the closure's \<^verbatim>\<open>handle\<close> is
  still \<^verbatim>\<open>null\<close> and nothing is stored, so the handle of the earlier run stays in the
  store and the handle of the new run never enters it.
\<close>

theorem prior_handle_kept_counterexample:
  "runnerHandles (exec keep ex_early_ack init) = [(''c'', 1)]
   \<and> r_conversationId (runs (exec keep ex_early_ack init) ! 1) = Some ''c''
   \<and> r_handle (runs (exec keep ex_early_ack init) ! 1) = Some 2"
  by (simp add: ex_early_ack_def eval_defs)

lemma distinct_request:
  "distinct (map fst (runnerHandles s)) \<Longrightarrow>
     distinct (map fst (runnerHandles (snd (request cb ev s))))"
proof (cases ev)
  case (C_session_continue sid p w)
  assume "distinct (map fst (runnerHandles s))"
  then show ?thesis
    unfolding C_session_continue request_continue
    by (simp add: call_runLetta_def updateSession_status createRuntimeSession_eq
          split: option.splits)
qed (auto simp: new_Map_def call_runLetta_def Let_def updateSession_status deleteSession_def
       abort_handle_def getSession_def distinct_delete split: option.splits)

lemma distinct_callback:
  "distinct (map fst (runnerHandles s)) \<Longrightarrow>
     distinct (map fst (runnerHandles (callback k c s)))"
proof -
  assume a: "distinct (map fst (runnerHandles s))"
  have "distinct (map fst (runnerHandles (start_onSessionUpdate k u s)))" for u
  proof (cases "truthy u \<and> \<not> truthy (r_conversationId (runs s ! k))")
    case True
    then show ?thesis
      using a by (simp add: start_onSessionUpdate_ack distinct_update split: option.splits)
  next
    case False
    then show ?thesis using a by (simp add: start_onSessionUpdate_ignored)
  qed
  then show ?thesis
    using a
    by (simp add: callback_def start_onEvent_def Let_def
          split: origin.splits RunnerCallback.splits)
qed

lemma distinct_settle:
  "distinct (map fst (runnerHandles s)) \<Longrightarrow>
     distinct (map fst (runnerHandles (settle k res s)))"
  by (simp add: settle_def Let_def set_run_def updateSession_status distinct_update
        split: origin.splits outcome.splits option.splits)

lemma distinct_step:
  "distinct (map fst (runnerHandles s)) \<Longrightarrow>
     distinct (map fst (runnerHandles (step cb a s)))"
  by (cases a)
     (simp_all add: distinct_request distinct_callback distinct_settle cleanupAllSessions_def
        del: request.simps)

lemma distinct_exec:
  "distinct (map fst (runnerHandles s)) \<Longrightarrow>
     distinct (map fst (runnerHandles (exec cb as s)))"
  by (induction as arbitrary: s) (simp_all add: distinct_step del: step.simps)

text \<open>
  C5 (amended). At every point of any sequence of requests, runner callbacks and
  settlements the store holds at most one handle per conversation id. An uninterrupted
  \<^verbatim>\<open>session.continue\<close> whose runner call resolves stores the new handle under the id, in
  place of any handle stored there; the acknowledgement of a \<^verbatim>\<open>session.start\<close> does the
  same when the runner's promise has already resolved, that is when the closure's
  \<^verbatim>\<open>handle\<close> is set.
\<close>

theorem runner_handles_one_per_id:
  "(distinct (map fst (runnerHandles s)) \<longrightarrow>
      distinct (map fst (runnerHandles (exec cb as s))))
   \<and> distinct (map fst (runnerHandles (exec cb as init)))
   \<and> map_of (runnerHandles (snd (handleClientEvent cb (C_session_continue sid prompt cwd)
        (cbs, Returns h) s))) sid = Some h
   \<and> (k < length (runs s) \<and> r_origin (runs s ! k) = OfStart
        \<and> \<not> truthy (r_conversationId (runs s ! k)) \<and> r_handle (runs s ! k) = Some h
        \<and> cid \<noteq> [] \<longrightarrow>
        map_of (runnerHandles (callback k (OnSessionUpdate (Some cid)) s)) cid = Some h)"
proof -
  define j where "j = length (runs s)"
  define b where "b = snd (request cb (C_session_continue sid prompt cwd) s)"
  define b0 where "b0 = foldl (\<lambda>t c. callback j c t) b cbs"
  have b: "j < length (runs b)" "r_origin (runs b ! j) = OfContinue sid"
      "r_promise (runs b ! j) = Pending"
    by (simp_all del: request.simps add: b_def j_def request_continue_run)
  from continue_callbacks [OF b(1,2), of cbs sid] b
  have b0: "j < length (runs b0)" "r_origin (runs b0 ! j) = OfContinue sid"
      "r_promise (runs b0 ! j) = Pending"
    by (simp_all add: b0_def)
  have B: "map_of (runnerHandles (settle j (Returns h) b0)) sid = Some h"
    using b0 by (simp add: settle_def Let_def set_run_def update_conv')
  have hb: "fst (request cb (C_session_continue sid prompt cwd) s) = Pending"
    by (simp del: request.simps add: request_continue)
  have 3: "map_of (runnerHandles (snd (handleClientEvent cb (C_session_continue sid prompt cwd)
        (cbs, Returns h) s))) sid = Some h"
    unfolding handle_async [OF hb] fst_conv snd_conv
    using B unfolding b0_def b_def j_def .
  have 4: "k < length (runs s) \<and> r_origin (runs s ! k) = OfStart
        \<and> \<not> truthy (r_conversationId (runs s ! k)) \<and> r_handle (runs s ! k) = Some h
        \<and> cid \<noteq> [] \<longrightarrow>
        map_of (runnerHandles (callback k (OnSessionUpdate (Some cid)) s)) cid = Some h"
    by (simp add: callback_def start_onSessionUpdate_ack update_conv')
  have 2: "distinct (map fst (runnerHandles (exec cb as init)))"
    by (rule distinct_exec) (simp add: init_def)
  show ?thesis
    using 2 3 4 distinct_exec [of s cb as] by blast
qed

lemma ex_late_ack_run:
  "exec keep ex_late_ack init =
     init\<lparr>sessions := [''c'' \<mapsto> \<lparr>conversationId = ''c'', agentId = None, status = Running,
          pendingPermissions = 0, abortController = None\<rparr>],
        runnerHandles := [(''c'', 1)],
        pendingMaps := (\<lambda>_. Map.empty)(0 := Map.empty, 1 := Map.empty),
        nextMap := 2,
        runs := [\<lparr>r_origin = OfContinue ''c'',
            r_options = \<lparr>ro_prompt = ''hello'',
              ro_session = \<lparr>rs_id = ''c'', rs_title = ''c'', rs_status = Running,
                rs_cwd = None, rs_pendingPermissions = 0\<rparr>,
              ro_resumeConversationId = Some ''c''\<rparr>,
            r_prompt = ''hello'', r_cwd = None, r_conversationId = None, r_handle = None,
            r_promise = Fulfilled\<rparr>,
          \<lparr>r_origin = OfStart,
            r_options = \<lparr>ro_prompt = ''again'',
              ro_session = \<lparr>rs_id = ''pending'', rs_title = ''title'', rs_status = Running,
                rs_cwd = None, rs_pendingPermissions = 1\<rparr>,
              ro_resumeConversationId = None\<rparr>,
            r_prompt = ''again'', r_cwd = None, r_conversationId = None, r_handle = Some 2,
            r_promise = Fulfilled\<rparr>],
        sent := [S_session_status ''c'' Running None None None,
                 S_stream_user_prompt ''c'' ''hello'']\<rparr>"
  by (simp add: ex_late_ack_def eval_defs)

theorem runner_handles_one_per_id_witness:
  "distinct (map fst (runnerHandles (exec keep ex_late_ack init)))
   \<and> 1 < length (runs (exec keep ex_late_ack init))
   \<and> r_origin (runs (exec keep ex_late_ack init) ! 1) = OfStart
   \<and> \<not> truthy (r_conversationId (runs (exec keep ex_late_ack init) ! 1))
   \<and> r_handle (runs (exec keep ex_late_ack init) ! 1) = Some 2
   \<and> ''c'' \<noteq> []
   \<and> map_of (runnerHandles (exec keep ex_late_ack init)) ''c'' = Some 1
   \<and> map_of (runnerHandles (callback 1 (OnSessionUpdate (Some ''c'')) (exec keep ex_late_ack init)))
         ''c'' = Some 2
   \<and> distinct (map fst (runnerHandles
         (exec keep [Callback 1 (OnSessionUpdate (Some ''c''))] (exec keep ex_late_ack init))))"
  using runner_handles_one_per_id
    [of "exec keep ex_late_ack init" keep "[Callback 1 (OnSessionUpdate (Some ''c''))]"
        "''c''" "''more''" None "[]" 2 1 "''c''"]
  by (simp add: ex_late_ack_run)

section \<open>Listing and history\<close>

text \<open>
  C7. A \<^verbatim>\<open>session.list\<close> request broadcasts one \<^verbatim>\<open>session.list\<close> event with an empty
  list of sessions. A \<^verbatim>\<open>session.history\<close> request broadcasts one \<^verbatim>\<open>session.history\<close>
  event with no messages, whose status is the stored status of the session when it exists
  and \<^verbatim>\<open>idle\<close> otherwise. Neither changes anything else; in particular the runner is not
  called.
\<close>

theorem list_and_history_are_stubs:
  "handleClientEvent cb C_session_list runner s
     = (Fulfilled, s\<lparr>sent := sent s @ [S_session_list []]\<rparr>)
   \<and> handleClientEvent cb (C_session_history sid) runner s
     = (Fulfilled,
        s\<lparr>sent := sent s @
           [S_session_history sid
              (case sessions s sid of Some session \<Rightarrow> status session | None \<Rightarrow> Idle) []]\<rparr>)
   \<and> runs (snd (handleClientEvent cb C_session_list runner s)) = runs s
   \<and> runs (snd (handleClientEvent cb (C_session_history sid) runner s)) = runs s"
  by (simp add: handleClientEvent_def emit_def broadcast_def getSession_def)

section \<open>The stored status follows the status events\<close>

lemma last_status_snoc:
  "last_status sid (es @ [e]) =
     (case e of
        S_session_status sid' st _ _ _ \<Rightarrow> if sid' = sid then Some st else last_status sid es
      | _ \<Rightarrow> last_status sid es)"
  by (simp add: last_status_def split: ServerEvent.splits)

lemma agrees_emit: "status_agrees s \<Longrightarrow> status_agrees (emit e s)"
  by (auto simp: status_agrees_def emit_sessions last_status_snoc
           split: ServerEvent.splits option.splits if_splits)

lemma agrees_emit_status:
  assumes "\<And>sid x. sid \<noteq> cid \<Longrightarrow> sessions t sid = Some x \<Longrightarrow> last_status sid (sent t) = Some (status x)"
  shows "status_agrees (emit (S_session_status cid st a b c) t)"
  using assms
  by (auto simp: status_agrees_def emit_sessions last_status_snoc
           split: ServerEvent.splits option.splits if_splits)

lemma agrees_call_runLetta:
  "status_agrees (call_runLetta a b c d s) = status_agrees s"
  by (simp add: status_agrees_def call_runLetta_def)

lemma agrees_set_run: "status_agrees (set_run k r s) = status_agrees s"
  by (simp add: status_agrees_def set_run_def)

lemma agrees_request: "status_agrees s \<Longrightarrow> status_agrees (snd (request cb ev s))"
proof (cases ev)
  case (C_session_start t p w a)
  assume "status_agrees s"
  then show ?thesis
    by (simp add: C_session_start new_Map_def call_runLetta_def status_agrees_def)
next
  case (C_session_continue sid p w)
  assume a: "status_agrees s"
  define t where "t = snd (updateSession sid (status_only Running)
                  (case sessions s sid of Some session \<Rightarrow> s
                        | None \<Rightarrow> snd (createRuntimeSession sid s)))"
  have "status_agrees (emit (S_session_status sid Running None None None) t)"
    using a unfolding t_def
    by (intro agrees_emit_status)
       (auto simp: status_agrees_def updateSession_status createRuntimeSession_eq
          split: option.splits if_splits)
  then have "status_agrees (emit (S_stream_user_prompt sid p)
               (emit (S_session_status sid Running None None None) t))"
    by (rule agrees_emit)
  then show ?thesis
    unfolding C_session_continue request_continue t_def
    by (simp add: agrees_call_runLetta)
next
  case (C_session_stop sid)
  assume a: "status_agrees s"
  show ?thesis
    using a
    by (simp add: C_session_stop Let_def)
       (rule agrees_emit_status,
        auto simp: status_agrees_def updateSession_status split: option.splits if_splits)
next
  case (C_session_delete sid)
  assume a: "status_agrees s"
  then have "status_agrees (snd (deleteSession sid (abort_handle sid s)))"
    by (auto simp: status_agrees_def deleteSession_def split: if_splits)
  then show ?thesis
    by (simp add: C_session_delete Let_def agrees_emit)
next
  case C_session_list
  assume a: "status_agrees s"
  then show ?thesis by (simp add: C_session_list agrees_emit)
next
  case (C_session_history sid)
  assume a: "status_agrees s"
  then show ?thesis by (simp add: C_session_history agrees_emit)
next
  case (C_permission_response sid tid res)
  assume a: "status_agrees s"
  then show ?thesis
    by (auto simp: C_permission_response status_agrees_def getSession_def split: option.splits)
qed

lemma agrees_callback: "status_agrees s \<Longrightarrow> status_agrees (callback k c s)"
proof -
  assume a: "status_agrees s"
  have ev: "status_agrees (start_onEvent k e s)" for e
    using a by (simp add: start_onEvent_def Let_def agrees_emit)
  have up: "status_agrees (start_onSessionUpdate k u s)" for u
  proof (cases "truthy u \<and> \<not> truthy (r_conversationId (runs s ! k))")
    case True
    show ?thesis
      using True a
      by (simp add: start_onSessionUpdate_ack)
         (rule agrees_emit, rule agrees_emit_status, auto simp: status_agrees_def)
  next
    case False
    then show ?thesis using a by (simp add: start_onSessionUpdate_ignored)
  qed
  show ?thesis
    using a ev up
    by (simp add: callback_def agrees_emit split: origin.splits RunnerCallback.splits)
qed

lemma agrees_settle: "status_agrees s \<Longrightarrow> status_agrees (settle k res s)"
proof -
  assume a: "status_agrees s"
  have 1: "status_agrees (emit e (s\<lparr>console := console s @ [err]\<rparr>))" for e err
    using a by (intro agrees_emit) (simp add: status_agrees_def)
  have 2: "status_agrees (s\<lparr>runnerHandles := h\<rparr>)" for h
    using a by (simp add: status_agrees_def)
  have 3: "status_agrees (emit (S_session_status cid Error None None m)
             (snd (updateSession cid (status_only Error) s)))" for cid m
    using a
    by (intro agrees_emit_status)
       (auto simp: status_agrees_def updateSession_status split: option.splits if_splits)
  show ?thesis
    using a 1 2 3
    by (simp add: settle_def Let_def agrees_set_run split: origin.splits outcome.splits)
qed

lemma agrees_step: "status_agrees s \<Longrightarrow> status_agrees (step cb a s)"
  by (cases a)
     (simp_all add: agrees_request agrees_callback agrees_settle,
      simp add: cleanupAllSessions_def status_agrees_def)

lemma agrees_exec: "status_agrees s \<Longrightarrow> status_agrees (exec cb as s)"
  by (induction as arbitrary: s) (simp_all add: agrees_step)

lemma agrees_init: "status_agrees init"
  by (simp add: status_agrees_def init_def)

text \<open>
  C8. \<^verbatim>\<open>emit\<close> of a \<^verbatim>\<open>session.status\<close> event first writes the status of the event into
  the table entry of the event's session id, when there is one, and then broadcasts the
  event; an event of any other type leaves the table as it is. Hence, whatever requests,
  runner callbacks and settlements have been handled since start-up, the stored status of
  every session in the table is the status of the last \<^verbatim>\<open>session.status\<close> event
  broadcast for its id.
\<close>

theorem emit_records_status:
  "emit (S_session_status sid st ti w er) s =
     broadcast (S_session_status sid st ti w er) (snd (updateSession sid (status_only st) s))
   \<and> sessions (emit (S_session_status sid st ti w er) s) =
       (case sessions s sid of
          Some session \<Rightarrow> (sessions s)(sid \<mapsto> session\<lparr>status := st\<rparr>)
        | None \<Rightarrow> sessions s)
   \<and> (\<not> is_session_status ev \<longrightarrow> sessions (emit ev s) = sessions s)
   \<and> sent (emit ev s) = sent s @ [ev]
   \<and> (sessions (exec cb as init) sid' = Some session' \<longrightarrow>
        last_status sid' (sent (exec cb as init)) = Some (status session'))"
proof -
  have "status_agrees (exec cb as init)"
    by (rule agrees_exec) (rule agrees_init)
  then have "sessions (exec cb as init) sid' = Some session' \<longrightarrow>
        last_status sid' (sent (exec cb as init)) = Some (status session')"
    by (simp add: status_agrees_def)
  moreover have "\<not> is_session_status ev \<longrightarrow> sessions (emit ev s) = sessions s"
    by (cases ev) (simp_all add: emit_sessions)
  ultimately show ?thesis
    by (simp add: emit_sessions) (simp add: emit_def)
qed

lemma ex_failed_continue_run:
  "sessions (exec keep ex_failed_continue init) ''c'' =
     Some \<lparr>conversationId = ''c'', agentId = None, status = Error,
            pendingPermissions = 0, abortController = None\<rparr>"
  by (simp add: ex_failed_continue_def init_def getSession_def createRuntimeSession_eq
        updateSession_status emit_sessions call_runLetta_def settle_def set_run_def Let_def)

theorem emit_records_status_witness:
  "\<not> is_session_status (S_session_deleted ''c'')
   \<and> sessions (emit (S_session_deleted ''c'') init) = sessions init
   \<and> sessions (exec keep ex_failed_continue init) ''c'' =
       Some \<lparr>conversationId = ''c'', agentId = None, status = Error,
              pendingPermissions = 0, abortController = None\<rparr>
   \<and> last_status ''c'' (sent (exec keep ex_failed_continue init)) = Some Error"
  using emit_records_status [of "''c''" Error None None None init
      "S_session_deleted ''c''" keep ex_failed_continue "''c''"
      "\<lparr>conversationId = ''c'', agentId = None, status = Error,
              pendingPermissions = 0, abortController = None\<rparr>"]
    ex_failed_continue_run
  by simp

section \<open>Creating and continuing sessions\<close>

text \<open>
  C9. \<^verbatim>\<open>createRuntimeSession\<close> returns a session with status idle and a new, empty
  pending-permission map, and stores it under the conversation id, in place of any session
  stored there: the status and the pending-permission map of the replaced session are no
  longer in the table. \<^verbatim>\<open>session.continue\<close> creates a session only when the id has
  none; when it has one, that session is kept, set to running, and the runner is given its
  existing pending-permission map.
\<close>

theorem createRuntimeSession_replaces_continue_reuses:
  "status (fst (createRuntimeSession cid s)) = Idle
   \<and> conversationId (fst (createRuntimeSession cid s)) = cid
   \<and> pendingMaps (snd (createRuntimeSession cid s))
        (pendingPermissions (fst (createRuntimeSession cid s))) = Map.empty
   \<and> sessions (snd (createRuntimeSession cid s)) = (sessions s)(cid \<mapsto> fst (createRuntimeSession cid s))
   \<and> (sessions s cid = Some old \<and> pendingPermissions old < nextMap s \<longrightarrow>
        pendingPermissions (fst (createRuntimeSession cid s)) \<noteq> pendingPermissions old
        \<and> pendingMaps (snd (createRuntimeSession cid s)) (pendingPermissions old) =
            pendingMaps s (pendingPermissions old))
   \<and> (sessions s cid = Some old \<longrightarrow>
        (let s' = snd (request cb (C_session_continue cid prompt cwd) s)
         in sessions s' = (sessions s)(cid \<mapsto> old\<lparr>status := Running\<rparr>)
            \<and> pendingMaps s' = pendingMaps s \<and> nextMap s' = nextMap s
            \<and> runs s' = runs s @ [last (runs s')]
            \<and> rs_pendingPermissions (ro_session (r_options (last (runs s')))) =
                pendingPermissions old))
   \<and> (sessions s cid = None \<longrightarrow>
        (let s' = snd (request cb (C_session_continue cid prompt cwd) s)
         in sessions s' = (sessions s)(cid \<mapsto>
              \<lparr>conversationId = cid, agentId = None, status = Running,
                pendingPermissions = nextMap s, abortController = None\<rparr>)
            \<and> pendingMaps s' = (pendingMaps s)(nextMap s := Map.empty)
            \<and> runs s' = runs s @ [last (runs s')]
            \<and> rs_pendingPermissions (ro_session (r_options (last (runs s')))) = nextMap s))"
  unfolding request_continue
  by (simp add: createRuntimeSession_eq Let_def call_runLetta_def emit_sessions
        updateSession_status)

theorem createRuntimeSession_replaces_continue_reuses_witness:
  "sessions ex_state ''a'' = Some ex_session
   \<and> pendingPermissions ex_session < nextMap ex_state
   \<and> pendingMaps ex_state (pendingPermissions ex_session) ''t'' = Some ex_pending
   \<and> pendingPermissions (fst (createRuntimeSession ''a'' ex_state)) = 1
   \<and> pendingMaps (snd (createRuntimeSession ''a'' ex_state)) 1 ''t'' = None
   \<and> sessions (snd (request keep (C_session_continue ''a'' ''more'' None) ex_state)) ''a'' =
        Some (ex_session\<lparr>status := Running\<rparr>)
   \<and> rs_pendingPermissions (ro_session (r_options (last (runs
        (snd (request keep (C_session_continue ''a'' ''more'' None) ex_state)))))) = 0
   \<and> sessions init ''a'' = None
   \<and> rs_pendingPermissions (ro_session (r_options (last (runs
        (snd (request keep (C_session_continue ''a'' ''more'' None) init)))))) = 0"
  using createRuntimeSession_replaces_continue_reuses
          [of "''a''" ex_state ex_session keep "''more''" None]
        createRuntimeSession_replaces_continue_reuses
          [of "''a''" init ex_session keep "''more''" None]
  by (simp add: ex_state_def ex_session_def init_def Let_def createRuntimeSession_eq)

section \<open>The result message in the renderer\<close>

text \<open>
  C10. \<^verbatim>\<open>MessageCard\<close> returns \<^verbatim>\<open>null\<close> for a \<^verbatim>\<open>result\<close> message whose \<^verbatim>\<open>success\<close>
  is true. A \<^verbatim>\<open>result\<close> message is rendered exactly when \<^verbatim>\<open>success\<close> is false, as the
  error block whose text is the message's error text, or \<^verbatim>\<open>Unknown error\<close> when the
  message has no error text (the field is absent or empty).
\<close>

theorem MessageCard_result:
  "MessageCard (SDKResult True err) isLast isRunning pr cbk = None
   \<and> MessageCard (SDKResult False err) isLast isRunning pr cbk =
       Some (Tag ''div'' ''flex flex-col gap-2 mt-4''
         [Tag ''div'' ''header text-error'' [Text ''Error''],
          Tag ''div'' ''rounded-xl bg-error-light p-3''
            [Tag ''pre'' ''text-sm text-error whitespace-pre-wrap''
               [Text (case err of None \<Rightarrow> ''Unknown error''
                      | Some t \<Rightarrow> if t = [] then ''Unknown error'' else t)]]])
   \<and> (MessageCard (SDKResult success err) isLast isRunning pr cbk = None) = success"
  by (cases err) (simp_all add: error_text_def)

end
